theory Spec2Isabelle
  imports Main "HOL-Library.Word"
begin

section \<open>Wide strings, exceptions and library functions\<close>

text \<open>
  \<^verbatim>\<open>wchar_t\<close> is 16 bits wide on the platform of the sources. A \<^verbatim>\<open>wchar_t*\<close>
  argument is modelled by the buffer it points to: a list of characters in which the
  string ends at the first zero. A pointer into a buffer is an index into the list.
\<close>

type_synonym wchar = "16 word"
type_synonym wstring = "wchar list"

text \<open>The wide literal \<^verbatim>\<open>L"..."\<close>.\<close>

definition wide :: "string \<Rightarrow> wstring" where
  "wide s = map of_char s"

definition colon :: wchar where
  "colon = 58"

text \<open>
  The exceptions the sources throw, each with its \<^verbatim>\<open>what()\<close> text:
  \<^verbatim>\<open>std::invalid_argument\<close>, \<^verbatim>\<open>std::out_of_range\<close> (from the \<^verbatim>\<open>std::sto*\<close>
  family), \<^verbatim>\<open>ctl::ctException\<close>, and any other \<^verbatim>\<open>std::exception\<close>.
\<close>

datatype exn =
    invalid_argument wstring
  | out_of_range wstring
  | ctException wstring
  | std_exception wstring

definition try_bind :: "exn + 'a \<Rightarrow> ('a \<Rightarrow> exn + 'b) \<Rightarrow> exn + 'b" where
  "try_bind m f = (case m of Inl e \<Rightarrow> Inl e | Inr x \<Rightarrow> f x)"

text \<open>\<^verbatim>\<open>wcslen\<close>, and the string a buffer holds.\<close>

definition wcslen :: "wchar list \<Rightarrow> nat" where
  "wcslen buf = length (takeWhile (\<lambda>c. c \<noteq> 0) buf)"

definition c_str :: "wchar list \<Rightarrow> wstring" where
  "c_str buf = takeWhile (\<lambda>c. c \<noteq> 0) buf"

text \<open>
  \<^verbatim>\<open>std::find(buf, buf + stop, v)\<close>: the index of the first \<open>v\<close> among the first
  \<open>stop\<close> characters, and \<open>stop\<close> when there is none.
\<close>

definition std_find :: "wchar list \<Rightarrow> nat \<Rightarrow> wchar \<Rightarrow> nat" where
  "std_find buf stop v = length (takeWhile (\<lambda>c. c \<noteq> v) (take stop buf))"

text \<open>
  Functions of the C++ library and of \<^verbatim>\<open>ctString.hpp\<close>, which is not among the
  sources, are parameters of the model:
  \<^item> \<^verbatim>\<open>ctString::iordinal_equals\<close>, the case-insensitive ordinal comparison;
  \<^item> \<^verbatim>\<open>std::stoul(str, &idx, base)\<close> and \<^verbatim>\<open>std::stoull\<close>: the value and the index
    of the first unconverted character, or the exception thrown.
\<close>

record externals =
  iordinal_equals :: "wstring \<Rightarrow> wstring \<Rightarrow> bool"
  stoul :: "wstring \<Rightarrow> nat \<Rightarrow> exn + (32 word \<times> nat)"
  stoull :: "wstring \<Rightarrow> nat \<Rightarrow> exn + (64 word \<times> nat)"

section \<open>ctsConfig: argument parsing\<close>

text \<open>
  \<^verbatim>\<open>ParseArgument\<close> (ctsConfig.cpp, lines 184-200). The result is the exception, or
  the returned pointer (\<open>None\<close> for \<^verbatim>\<open>nullptr\<close>, \<open>Some i\<close> for the address of
  character \<open>i\<close> of the input) together with the input buffer as the call leaves it.
\<close>

definition ParseArgument ::
  "(wstring \<Rightarrow> wstring \<Rightarrow> bool) \<Rightarrow> wchar list \<Rightarrow> wstring \<Rightarrow> exn + (nat option \<times> wchar list)" where
  "ParseArgument iequals input_argument expected_param =
     (let param_end = wcslen input_argument;
          param_delimiter = std_find input_argument param_end colon
      in if \<not> (param_end > param_delimiter + 1)
         then Inl (invalid_argument (wide ''Invalid argument''))
         else
           let buf1 = input_argument[param_delimiter := 0];
               return_value = (if iequals expected_param (c_str buf1)
                               then Some (param_delimiter + 1) else None);
               buf2 = buf1[param_delimiter := colon]
           in Inr (return_value, buf2))"

text \<open>
  \<^verbatim>\<open>std::find_if\<close> with a predicate that may throw: the index of the first element
  that satisfies it, the length of the list when there is none.
\<close>

fun find_if :: "('a \<Rightarrow> exn + bool) \<Rightarrow> 'a list \<Rightarrow> exn + nat" where
  "find_if p [] = Inr 0"
| "find_if p (x # xs) =
     (case p x of
        Inl e \<Rightarrow> Inl e
      | Inr True \<Rightarrow> Inr 0
      | Inr False \<Rightarrow> (case find_if p xs of Inl e \<Rightarrow> Inl e | Inr i \<Rightarrow> Inr (Suc i)))"

text \<open>
  Every \<^verbatim>\<open>set_*\<close> function starts with the same search,
  \<^verbatim>\<open>find_if(begin(_args), end(_args), [&](wchar_t* parameter) { return ParseArgument(parameter, name) != nullptr; })\<close>,
  reads the value of the argument found with a second call of \<^verbatim>\<open>ParseArgument\<close>
  (a \<^verbatim>\<open>std::wstring\<close> built from the returned pointer), and ends with
  \<^verbatim>\<open>_args.erase(found_arg)\<close>. The search leaves every buffer as it was
  (lemma \<open>ParseArgument_buffer_unchanged\<close> below), so the arguments are not threaded
  through it.
\<close>

definition find_parameter :: "externals \<Rightarrow> wstring \<Rightarrow> wchar list list \<Rightarrow> exn + nat" where
  "find_parameter ext name args =
     find_if (\<lambda>parameter.
        try_bind (ParseArgument (iordinal_equals ext) parameter name)
          (\<lambda>(value, _). Inr (value \<noteq> None))) args"

definition parameter_value :: "externals \<Rightarrow> wstring \<Rightarrow> wchar list \<Rightarrow> exn + wstring" where
  "parameter_value ext name parameter =
     try_bind (ParseArgument (iordinal_equals ext) parameter name)
       (\<lambda>(value, buf). Inr (case value of None \<Rightarrow> [] | Some i \<Rightarrow> c_str (drop i buf)))"

definition erase :: "'a list \<Rightarrow> nat \<Rightarrow> 'a list" where
  "erase xs i = take i xs @ drop (Suc i) xs"

text \<open>
  \<^verbatim>\<open>as_integral<unsigned long>\<close>, \<^verbatim>\<open>as_integral<unsigned short>\<close> and
  \<^verbatim>\<open>as_integral<unsigned long long>\<close> (lines 249-267, 292-304, 325-343).
  \<^verbatim>\<open>unsigned long\<close> has 32 bits here.
\<close>

definition has_x :: "wstring \<Rightarrow> bool" where
  "has_x s = (120 \<in> set s \<or> 88 \<in> set s)"

definition as_integral_ulong :: "externals \<Rightarrow> wstring \<Rightarrow> exn + 32 word" where
  "as_integral_ulong ext s =
     try_bind (if has_x s then stoul ext s 16 else stoul ext s 10)
       (\<lambda>(return_value, first_unconverted_offset).
          if first_unconverted_offset \<noteq> length s
          then Inl (invalid_argument (wide ''Invalid argument: '' @ s))
          else Inr return_value)"

definition as_integral_ushort :: "externals \<Rightarrow> wstring \<Rightarrow> exn + 16 word" where
  "as_integral_ushort ext s =
     try_bind (as_integral_ulong ext s)
       (\<lambda>return_value.
          if return_value > 0xFFFF
          then Inl (invalid_argument (wide ''Invalid argument: '' @ s))
          else Inr (ucast return_value))"

definition as_integral_ulonglong :: "externals \<Rightarrow> wstring \<Rightarrow> exn + 64 word" where
  "as_integral_ulonglong ext s =
     try_bind (if has_x s then stoull ext s 16 else stoull ext s 10)
       (\<lambda>(return_value, first_unconverted_offset).
          if first_unconverted_offset \<noteq> length s
          then Inl (invalid_argument (wide ''Invalid argument: '' @ s))
          else Inr return_value)"

section \<open>ctsConfig: the settings\<close>

text \<open>
  The header \<^verbatim>\<open>ctsConfig.h\<close> is not among the sources. The fields of
  \<^verbatim>\<open>ctsConfigSettings\<close> below are those the modelled functions read or write, with
  the widths their assignments give them (\<^verbatim>\<open>as_integral<unsigned short>\<close> for the
  port, \<^verbatim>\<open>unsigned long\<close> for the limits, \<^verbatim>\<open>ULONGLONG\<close> for the iteration
  and exit counts). \<open>AcceptFunction\<close> is a \<^verbatim>\<open>std::function\<close>, of which the sources
  test only whether it is set. Of \<^verbatim>\<open>ProtocolType\<close> the sources name \<open>TCP\<close> and
  \<open>UDP\<close>; \<open>NoProtocolSet\<close> stands for any other value of the enumeration.
\<close>

datatype ProtocolType = NoProtocolSet | TCP | UDP

datatype ctSockaddr = ctSockaddr (address: "8 word list") (port: "16 word")

record ctsConfigSettings =
  Port :: "16 word"
  Protocol :: ProtocolType
  ListenAddresses :: "ctSockaddr list"
  AcceptFunction :: bool
  Iterations :: "64 word"
  ConnectionLimit :: "32 word"
  AcceptLimit :: "32 word"
  ConnectionThrottleLimit :: "32 word"
  ServerExitLimit :: "64 word"
  ShouldVerifyBuffers :: bool
  UseSharedBuffer :: bool
  PrePostRecvs :: "32 word"
  TimeLimit :: "32 word"

definition MAXULONGLONG :: "64 word" where
  "MAXULONGLONG = 0xFFFFFFFFFFFFFFFF"

definition MAXUINT32 :: "32 word" where
  "MAXUINT32 = 0xFFFFFFFF"

definition DefaultPort :: "16 word" where
  "DefaultPort = 4444"

definition DefaultAcceptLimit :: "32 word" where
  "DefaultAcceptLimit = 10"

definition DefaultConnectionThrottleLimit :: "32 word" where
  "DefaultConnectionThrottleLimit = 1000"

text \<open>
  \<^verbatim>\<open>InitOncectsConfigImpl\<close> (lines 149-160) writes the defaults into the freshly
  allocated settings, here the argument.
\<close>

definition InitOncectsConfigImpl :: "ctsConfigSettings \<Rightarrow> ctsConfigSettings" where
  "InitOncectsConfigImpl Settings =
     Settings\<lparr>Port := DefaultPort,
       Iterations := MAXULONGLONG,
       ConnectionLimit := 1,
       AcceptLimit := DefaultAcceptLimit,
       ConnectionThrottleLimit := DefaultConnectionThrottleLimit,
       ServerExitLimit := MAXULONGLONG,
       ShouldVerifyBuffers := True,
       UseSharedBuffer := False\<rparr>"

definition IsListening :: "ctsConfigSettings \<Rightarrow> bool" where
  "IsListening Settings = (ListenAddresses Settings \<noteq> [])"

text \<open>\<^verbatim>\<open>set_port\<close> (lines 1009-1024).\<close>

definition set_port ::
  "externals \<Rightarrow> ctsConfigSettings \<Rightarrow> wchar list list \<Rightarrow> exn + (ctsConfigSettings \<times> wchar list list)" where
  "set_port ext Settings args =
     try_bind (find_parameter ext (wide ''-Port'') args) (\<lambda>found_arg.
       if found_arg \<noteq> length args then
         try_bind (parameter_value ext (wide ''-Port'') (args ! found_arg)) (\<lambda>v.
         try_bind (as_integral_ushort ext v) (\<lambda>p.
           let Settings = Settings\<lparr>Port := p\<rparr>
           in if 0 = Port Settings then Inl (invalid_argument (wide ''-Port''))
              else Inr (Settings, erase args found_arg)))
       else Inr (Settings, args))"

text \<open>\<^verbatim>\<open>set_throttleConnections\<close> (lines 1086-1105).\<close>

definition set_throttleConnections ::
  "externals \<Rightarrow> ctsConfigSettings \<Rightarrow> wchar list list \<Rightarrow> exn + (ctsConfigSettings \<times> wchar list list)" where
  "set_throttleConnections ext Settings args =
     try_bind (find_parameter ext (wide ''-throttleconnections'') args) (\<lambda>found_arg.
       if found_arg \<noteq> length args then
         if IsListening Settings
         then Inl (invalid_argument (wide ''-ThrottleConnections is only supported when running as a client''))
         else
           try_bind (parameter_value ext (wide ''-throttleconnections'') (args ! found_arg)) (\<lambda>v.
           try_bind (as_integral_ulong ext v) (\<lambda>n.
             let Settings = Settings\<lparr>ConnectionThrottleLimit := n\<rparr>;
                 Settings = (if 0 = ConnectionThrottleLimit Settings
                             then Settings\<lparr>ConnectionThrottleLimit := MAXUINT32\<rparr>
                             else Settings)
             in Inr (Settings, erase args found_arg)))
       else Inr (Settings, args))"

text \<open>\<^verbatim>\<open>set_prepostrecvs\<close> (lines 1507-1525).\<close>

definition set_prepostrecvs ::
  "externals \<Rightarrow> ctsConfigSettings \<Rightarrow> wchar list list \<Rightarrow> exn + (ctsConfigSettings \<times> wchar list list)" where
  "set_prepostrecvs ext Settings args =
     try_bind (find_parameter ext (wide ''-PrePostRecvs'') args) (\<lambda>found_arg.
       if found_arg \<noteq> length args then
         try_bind (parameter_value ext (wide ''-PrePostRecvs'') (args ! found_arg)) (\<lambda>v.
         try_bind (as_integral_ulong ext v) (\<lambda>n.
           let Settings = Settings\<lparr>PrePostRecvs := n\<rparr>
           in if 0 = PrePostRecvs Settings then Inl (invalid_argument (wide ''-PrePostRecvs''))
              else Inr (Settings, erase args found_arg)))
       else Inr (Settings\<lparr>PrePostRecvs := 1\<rparr>, args))"

text \<open>\<^verbatim>\<open>set_shouldVerifyBuffers\<close> (lines 1606-1628).\<close>

definition set_shouldVerifyBuffers ::
  "externals \<Rightarrow> ctsConfigSettings \<Rightarrow> wchar list list \<Rightarrow> exn + (ctsConfigSettings \<times> wchar list list)" where
  "set_shouldVerifyBuffers ext Settings args =
     try_bind (find_parameter ext (wide ''-verify'') args) (\<lambda>found_arg.
       if found_arg \<noteq> length args then
         try_bind (parameter_value ext (wide ''-verify'') (args ! found_arg)) (\<lambda>v.
           if iordinal_equals ext (wide ''always'') v \<or> iordinal_equals ext (wide ''data'') v
           then Inr (Settings\<lparr>ShouldVerifyBuffers := True, UseSharedBuffer := False\<rparr>,
                     erase args found_arg)
           else if iordinal_equals ext (wide ''never'') v \<or> iordinal_equals ext (wide ''connection'') v
           then Inr (Settings\<lparr>ShouldVerifyBuffers := False, UseSharedBuffer := True\<rparr>,
                     erase args found_arg)
           else Inl (invalid_argument (wide ''-verify'')))
       else Inr (Settings, args))"

text \<open>\<^verbatim>\<open>set_timelimit\<close> (lines 1637-1652).\<close>

definition set_timelimit ::
  "externals \<Rightarrow> ctsConfigSettings \<Rightarrow> wchar list list \<Rightarrow> exn + (ctsConfigSettings \<times> wchar list list)" where
  "set_timelimit ext Settings args =
     try_bind (find_parameter ext (wide ''-timelimit'') args) (\<lambda>found_arg.
       if found_arg \<noteq> length args then
         try_bind (parameter_value ext (wide ''-timelimit'') (args ! found_arg)) (\<lambda>v.
         try_bind (as_integral_ulong ext v) (\<lambda>n.
           let Settings = Settings\<lparr>TimeLimit := n\<rparr>
           in if 0 = Port Settings then Inl (invalid_argument (wide ''-timelimit''))
              else Inr (Settings, erase args found_arg)))
       else Inr (Settings, args))"

text \<open>
  The part of \<^verbatim>\<open>ctsConfig::Startup\<close> that settles the verification mode and the
  number of receives kept posted (lines 2183-2198). No other line of the sources
  writes \<open>ShouldVerifyBuffers\<close>, \<open>UseSharedBuffer\<close> or \<open>PrePostRecvs\<close> after the
  defaults of \<^verbatim>\<open>InitOncectsConfigImpl\<close>, and the protocol is set before, by
  \<^verbatim>\<open>set_protocol\<close>.
\<close>

definition Startup_verify ::
  "externals \<Rightarrow> ctsConfigSettings \<Rightarrow> wchar list list \<Rightarrow> exn + (ctsConfigSettings \<times> wchar list list)" where
  "Startup_verify ext Settings args =
     (let Settings = Settings\<lparr>ShouldVerifyBuffers := True\<rparr>;
          Settings = Settings\<lparr>UseSharedBuffer := False\<rparr>
      in try_bind (set_shouldVerifyBuffers ext Settings args) (\<lambda>(Settings, args).
           let Settings = (if UDP = Protocol Settings \<and> \<not> IsListening Settings
                           then Settings\<lparr>UseSharedBuffer := False\<rparr> else Settings)
           in try_bind (set_prepostrecvs ext Settings args) (\<lambda>(Settings, args).
                if TCP = Protocol Settings \<and> ShouldVerifyBuffers Settings \<and> PrePostRecvs Settings > 1
                then Inl (invalid_argument (wide ''-PrePostRecvs > 1 requires -Verify:connection when using TCP''))
                else Inr (Settings, args))))"

section \<open>ctsSocketBroker\<close>

text \<open>
  Modelled from the spec: the class \<^verbatim>\<open>ctsSocketState\<close> (the connection record) is
  not among the sources. Of its lifecycle
  (Creating, Connecting or Accepting, InitiatingIo, Io, Closing, Closed) the broker
  counts three phases: a record is \<open>Pending\<close> from its creation until it reports
  \<^verbatim>\<open>initiating_io\<close>, \<open>Active\<close> from then on, and \<open>Closed\<close> once it has reported
  \<^verbatim>\<open>closing\<close>; \<^verbatim>\<open>is_closed()\<close> holds of a closed record.
\<close>

datatype ctsSocketState = Pending | Active | Closed

definition is_closed :: "ctsSocketState \<Rightarrow> bool" where
  "is_closed socket_state = (socket_state = Closed)"

text \<open>
  The members of \<^verbatim>\<open>ctsSocketBroker\<close> (its header is not among the sources):
  \<open>total_connections_remaining\<close> is assigned a \<^verbatim>\<open>ULONGLONG\<close>, the three other
  counters are \<^verbatim>\<open>unsigned long\<close> (the cast of line 58, the \<^verbatim>\<open>%u\<close> of the
  messages). \<open>done_event\<close> is the state of the manual-reset event, \<open>socket_pool\<close> the
  vector of records.
\<close>

record ctsSocketBroker =
  socket_pool :: "ctsSocketState list"
  total_connections_remaining :: "64 word"
  pending_limit :: "32 word"
  pending_sockets :: "32 word"
  active_sockets :: "32 word"
  done_event :: bool

text \<open>
  What the broker's environment decides: whether the two system calls of the
  constructor succeed, and whether creating a record
  (\<^verbatim>\<open>std::make_shared<ctsSocketState>\<close> and \<^verbatim>\<open>push_back\<close>) succeeds in a given
  state of the broker or throws. \<^verbatim>\<open>start()\<close> only queues work and is taken not to throw.
\<close>

record environment =
  InitializeCriticalSectionAndSpinCount :: bool
  CreateEvent :: bool
  make_shared :: "ctsSocketBroker \<Rightarrow> bool"

text \<open>\<^verbatim>\<open>ctl::ctFatalCondition\<close> with a true condition ends the process (ctException.hpp, lines 730-771).\<close>

datatype fatal = ctFatalCondition string

text \<open>
  Modelled from the spec: the product of line 52,
  \<^verbatim>\<open>Settings->Iterations * static_cast<ULONGLONG>(Settings->ConnectionLimit)\<close>. The type
  of \<^verbatim>\<open>Iterations\<close> and its \<^verbatim>\<open>operator*\<close> are declared in \<^verbatim>\<open>ctsConfig.h\<close>, which is not
  among the sources; \<^verbatim>\<open>ctsConfig.cpp\<close> names the types \<^verbatim>\<open>ctsUnsignedLong\<close> and
  \<^verbatim>\<open>ctsUnsignedLongLong\<close> and casts these settings to the built-in types where it
  prints them. The specification words the product as
  "iterations x connection_limit (saturating)": the exact product where it fits in 64
  bits, the largest 64-bit value otherwise.
\<close>

definition Iterations_times :: "64 word \<Rightarrow> 64 word \<Rightarrow> 64 word" where
  "Iterations_times iterations connections =
     (if unat iterations * unat connections < 2 ^ 64 then iterations * connections
      else MAXULONGLONG)"

text \<open>
  The constructor, lines 32-59: the member initialisers, the totals of the two roles
  and the clamp of \<open>pending_limit\<close>.
\<close>

definition ctsSocketBroker_limits :: "ctsConfigSettings \<Rightarrow> ctsSocketBroker" where
  "ctsSocketBroker_limits Settings =
     (let b = \<lparr>socket_pool = [], total_connections_remaining = 0, pending_limit = 0,
               pending_sockets = 0, active_sockets = 0, done_event = False\<rparr>;
          b = (if AcceptFunction Settings
               then b\<lparr>total_connections_remaining := ServerExitLimit Settings,
                      pending_limit := AcceptLimit Settings\<rparr>
               else b\<lparr>total_connections_remaining :=
                        (if Iterations Settings = MAXULONGLONG then MAXULONGLONG
                         else Iterations_times (Iterations Settings)
                                (ucast (ConnectionLimit Settings))),
                      pending_limit := ConnectionLimit Settings\<rparr>)
      in if ucast (pending_limit b) > total_connections_remaining b
         then b\<lparr>pending_limit := ucast (total_connections_remaining b)\<rparr>
         else b)"

text \<open>
  One record created and counted, as both loops do it:
  \<^verbatim>\<open>push_back(make_shared<ctsSocketState>(this)); start(); ++pending_sockets; --total_connections_remaining;\<close>
\<close>

definition push_back_started :: "ctsSocketBroker \<Rightarrow> ctsSocketBroker" where
  "push_back_started b =
     b\<lparr>socket_pool := socket_pool b @ [Pending],
       pending_sockets := pending_sockets b + 1,
       total_connections_remaining := total_connections_remaining b - 1\<rparr>"

text \<open>
  The constructor up to its loop, lines 32-76: the limits, the critical section, the
  event and the timer, armed at line 72 with no delay.
\<close>

definition ctor_init :: "ctsConfigSettings \<Rightarrow> environment \<Rightarrow> exn + ctsSocketBroker" where
  "ctor_init Settings env =
     (let b = ctsSocketBroker_limits Settings
      in if \<not> InitializeCriticalSectionAndSpinCount env
         then Inl (ctException (wide ''InitializeCriticalSectionAndSpinCount''))
         else if \<not> CreateEvent env
         then Inl (ctException (wide ''CreateEvent''))
         else Inr b)"

text \<open>
  The loop of the constructor under the lock, lines 79-96. An exception leaves the
  constructor.
\<close>

function ctor_fill :: "ctsConfigSettings \<Rightarrow> environment \<Rightarrow> ctsSocketBroker \<Rightarrow> exn + ctsSocketBroker" where
  "ctor_fill Settings env b =
     (if total_connections_remaining b > 0 \<and> pending_sockets b < pending_limit b then
        if \<not> make_shared env b then Inl (std_exception (wide ''bad allocation''))
        else
          let b = push_back_started b
          in if \<not> AcceptFunction Settings \<and> ConnectionThrottleLimit Settings = pending_sockets b
             then Inr b
             else ctor_fill Settings env b
      else Inr b)"
  by pat_completeness auto
termination
  by (relation "measure (\<lambda>(Settings, env, b). unat (total_connections_remaining b))")
     (auto simp: push_back_started_def unat_minus_one word_gt_0 unat_gt_0)

text \<open>\<^verbatim>\<open>initiating_io\<close>, lines 123-134, and \<^verbatim>\<open>closing\<close>, lines 139-156.\<close>

definition initiating_io :: "ctsSocketBroker \<Rightarrow> fatal + ctsSocketBroker" where
  "initiating_io b =
     (if pending_sockets b = 0
      then Inl (ctFatalCondition ''ctsSocketBroker::initiating_io - About to decrement pending_sockets, but pending_sockets == 0'')
      else Inr (b\<lparr>pending_sockets := pending_sockets b - 1,
                  active_sockets := active_sockets b + 1\<rparr>))"

definition closing :: "ctsSocketBroker \<Rightarrow> bool \<Rightarrow> fatal + ctsSocketBroker" where
  "closing b was_active =
     (if was_active then
        if active_sockets b = 0
        then Inl (ctFatalCondition ''ctsSocketBroker::closing - About to decrement active_sockets, but active_sockets == 0'')
        else Inr (b\<lparr>active_sockets := active_sockets b - 1\<rparr>)
      else
        if pending_sockets b = 0
        then Inl (ctFatalCondition ''ctsSocketBroker::closing - About to decrement pending_sockets, but pending_sockets == 0'')
        else Inr (b\<lparr>pending_sockets := pending_sockets b - 1\<rparr>))"

text \<open>
  \<^verbatim>\<open>TimerCallback\<close>, lines 187-242. The loop of lines 217-235 is \<open>refill\<close>; an
  exception thrown while a record is created is caught at line 239 and ends the loop
  with the counters as they are.
\<close>

function refill :: "ctsConfigSettings \<Rightarrow> environment \<Rightarrow> ctsSocketBroker \<Rightarrow> ctsSocketBroker" where
  "refill Settings env b =
     (if pending_sockets b < pending_limit b \<and> total_connections_remaining b > 0 then
        if \<not> AcceptFunction Settings \<and> pending_sockets b + active_sockets b \<ge> ConnectionLimit Settings
        then b
        else if \<not> AcceptFunction Settings \<and> pending_sockets b \<ge> ConnectionThrottleLimit Settings
        then b
        else if \<not> make_shared env b then b
        else refill Settings env (push_back_started b)
      else b)"
  by pat_completeness auto
termination
  by (relation "measure (\<lambda>(Settings, env, b). unat (total_connections_remaining b))")
     (auto simp: push_back_started_def unat_minus_one word_gt_0 unat_gt_0)

text \<open>
  Lines 195-203: \<^verbatim>\<open>socket_pool.erase(std::remove_if(begin, end, is_closed), end)\<close>.
\<close>

definition reaped :: "ctsSocketBroker \<Rightarrow> ctsSocketBroker" where
  "reaped broker =
     broker\<lparr>socket_pool := filter (\<lambda>socket_state. \<not> is_closed socket_state) (socket_pool broker)\<rparr>"

definition TimerCallback :: "ctsConfigSettings \<Rightarrow> environment \<Rightarrow> ctsSocketBroker \<Rightarrow> ctsSocketBroker" where
  "TimerCallback Settings env broker =
     (let broker = reaped broker
      in if 0 = total_connections_remaining broker \<and> 0 = pending_sockets broker \<and> 0 = active_sockets broker
         then broker\<lparr>done_event := True\<rparr>
         else if \<not> done_event broker then refill Settings env broker
         else broker)"

text \<open>
  The broker's operations as events, each one under the lock. The timer fires, in an
  environment of its own: what \<^verbatim>\<open>make_shared\<close> does may differ from one tick to the
  next. The record at a position of the pool reports \<^verbatim>\<open>initiating_io\<close> and is active
  from then on; the record at a position reports \<^verbatim>\<open>closing\<close> with a flag and is closed
  from then on. A fatal condition ends the run.
\<close>

datatype event = TimerTick environment | InitiatingIo nat | Closing nat bool

fun step :: "ctsConfigSettings \<Rightarrow> ctsSocketBroker \<Rightarrow> event \<Rightarrow> fatal + ctsSocketBroker" where
  "step Settings b (TimerTick env) = Inr (TimerCallback Settings env b)"
| "step Settings b (InitiatingIo i) =
     (case initiating_io b of
        Inl f \<Rightarrow> Inl f
      | Inr b' \<Rightarrow> Inr (b'\<lparr>socket_pool := (socket_pool b')[i := Active]\<rparr>))"
| "step Settings b (Closing i was_active) =
     (case closing b was_active of
        Inl f \<Rightarrow> Inl f
      | Inr b' \<Rightarrow> Inr (b'\<lparr>socket_pool := (socket_pool b')[i := Closed]\<rparr>))"

fun run :: "ctsConfigSettings \<Rightarrow> ctsSocketBroker \<Rightarrow> event list \<Rightarrow> fatal + ctsSocketBroker" where
  "run Settings b [] = Inr b"
| "run Settings b (e # es) =
     (case step Settings b e of
        Inl f \<Rightarrow> Inl f
      | Inr b' \<Rightarrow> run Settings b' es)"

text \<open>
  The constructor, lines 32-97. Line 72 arms the timer with no delay and line 79 takes
  the lock for the loop, so other threads can take the lock first: the first ticks of
  the timer, and the reports of the records those ticks create. \<open>early\<close> is the list
  of the calls that do, in the order in which they hold the lock (empty when the
  constructor is first); the loop of the constructor runs in the state they leave. A
  fatal condition among them ends the process; an exception leaves the constructor.
\<close>

datatype ended = Thrown exn | FailedFast fatal

definition new_ctsSocketBroker ::
  "ctsConfigSettings \<Rightarrow> environment \<Rightarrow> event list \<Rightarrow> ended + ctsSocketBroker" where
  "new_ctsSocketBroker Settings env early =
     (case ctor_init Settings env of
        Inl e \<Rightarrow> Inl (Thrown e)
      | Inr b \<Rightarrow>
          (case run Settings b early of
             Inl f \<Rightarrow> Inl (FailedFast f)
           | Inr b \<Rightarrow>
               (case ctor_fill Settings env b of
                  Inl e \<Rightarrow> Inl (Thrown e)
                | Inr b \<Rightarrow> Inr b)))"

text \<open>
  The calling protocol of the records: a record reports \<^verbatim>\<open>initiating_io\<close> only while
  it is pending, reports \<^verbatim>\<open>closing\<close> only while it is pending or active, with
  \<open>was_active\<close> true exactly when it is active, and reports nothing once closed.
\<close>

fun permitted :: "ctsSocketState list \<Rightarrow> event \<Rightarrow> bool" where
  "permitted pool (TimerTick env) = True"
| "permitted pool (InitiatingIo i) = (i < length pool \<and> pool ! i = Pending)"
| "permitted pool (Closing i was_active) =
     (i < length pool \<and> pool ! i = (if was_active then Active else Pending))"

fun follows_protocol :: "ctsConfigSettings \<Rightarrow> ctsSocketBroker \<Rightarrow> event list \<Rightarrow> bool" where
  "follows_protocol Settings b [] = True"
| "follows_protocol Settings b (e # es) =
     (permitted (socket_pool b) e \<and>
      (case step Settings b e of
         Inl f \<Rightarrow> True
       | Inr b' \<Rightarrow> follows_protocol Settings b' es))"

text \<open>The number of active records stays below \<open>n\<close> in every state of a run.\<close>

definition active_records :: "ctsSocketBroker \<Rightarrow> nat" where
  "active_records b = length (filter (\<lambda>socket_state. socket_state = Active) (socket_pool b))"

definition pending_records :: "ctsSocketBroker \<Rightarrow> nat" where
  "pending_records b = length (filter (\<lambda>socket_state. socket_state = Pending) (socket_pool b))"

fun active_below :: "nat \<Rightarrow> ctsConfigSettings \<Rightarrow> ctsSocketBroker \<Rightarrow> event list \<Rightarrow> bool" where
  "active_below n Settings b [] = (active_records b < n)"
| "active_below n Settings b (e # es) =
     (active_records b < n \<and>
      (case step Settings b e of
         Inl f \<Rightarrow> True
       | Inr b' \<Rightarrow> active_below n Settings b' es))"

text \<open>
  The condition under which the timer creates one more record, as the specification
  words it: \<open>pending_sockets < pending_limit\<close> and \<open>total_connections_remaining > 0\<close>
  and, for the client role, \<open>pending_sockets + active_sockets < connection_limit\<close> and
  \<open>pending_sockets < throttle_limit\<close>. The sum is that of the 32-bit counters.
\<close>

definition spec_create_condition :: "ctsConfigSettings \<Rightarrow> ctsSocketBroker \<Rightarrow> bool" where
  "spec_create_condition Settings b \<longleftrightarrow>
     pending_sockets b < pending_limit b \<and> total_connections_remaining b > 0 \<and>
     (\<not> AcceptFunction Settings \<longrightarrow>
        pending_sockets b + active_sockets b < ConnectionLimit Settings \<and>
        pending_sockets b < ConnectionThrottleLimit Settings)"

text \<open>
  The limits of the client role: the pending and the active records together are at
  most \<open>ConnectionLimit\<close> (the sum taken in the natural numbers), and the pending ones
  at most a throttle, \<open>ConnectionThrottleLimit\<close> or more.
\<close>

definition client_limits_hold :: "ctsConfigSettings \<Rightarrow> 32 word \<Rightarrow> ctsSocketBroker \<Rightarrow> bool" where
  "client_limits_hold Settings throttle b \<longleftrightarrow>
     unat (pending_sockets b) + unat (active_sockets b) \<le> unat (ConnectionLimit Settings)
     \<and> pending_sockets b \<le> throttle"

text \<open>
  The counters agree with the pool: \<open>pending_sockets\<close> is the number of pending
  records and \<open>active_sockets\<close> the number of active ones.
\<close>

definition counters_match :: "ctsSocketBroker \<Rightarrow> bool" where
  "counters_match b \<longleftrightarrow>
     unat (pending_sockets b) = pending_records b \<and> unat (active_sockets b) = active_records b"

section \<open>Settings and states for the examples\<close>

definition example_settings :: "bool \<Rightarrow> 64 word \<Rightarrow> 32 word \<Rightarrow> 32 word \<Rightarrow> ctsConfigSettings" where
  "example_settings accepting iterations connection_limit throttle =
     \<lparr>Port = DefaultPort, Protocol = TCP, ListenAddresses = [], AcceptFunction = accepting,
      Iterations = iterations, ConnectionLimit = connection_limit, AcceptLimit = 100,
      ConnectionThrottleLimit = throttle, ServerExitLimit = MAXULONGLONG,
      ShouldVerifyBuffers = True, UseSharedBuffer = False, PrePostRecvs = 1, TimeLimit = 0\<rparr>"

definition example_broker ::
  "ctsSocketState list \<Rightarrow> 64 word \<Rightarrow> 32 word \<Rightarrow> 32 word \<Rightarrow> 32 word \<Rightarrow> ctsSocketBroker" where
  "example_broker pool remaining limit pending active =
     \<lparr>socket_pool = pool, total_connections_remaining = remaining, pending_limit = limit,
      pending_sockets = pending, active_sockets = active, done_event = False\<rparr>"

text \<open>An environment in which every system call and every allocation succeeds.\<close>

definition example_environment :: environment where
  "example_environment =
     \<lparr>InitializeCriticalSectionAndSpinCount = True, CreateEvent = True, make_shared = (\<lambda>b. True)\<rparr>"

section \<open>An instance of the library functions\<close>

text \<open>
  The examples below are evaluated with this instance of the library functions:
  comparison up to the case of the ASCII letters, and numbers read as a run of decimal
  digits (whichever base is asked for).
\<close>

definition towupper :: "wchar \<Rightarrow> wchar" where
  "towupper c = (if 97 \<le> c \<and> c \<le> 122 then c - 32 else c)"

definition ascii_iordinal_equals :: "wstring \<Rightarrow> wstring \<Rightarrow> bool" where
  "ascii_iordinal_equals a b = (map towupper a = map towupper b)"

fun leading_digits :: "wstring \<Rightarrow> nat \<Rightarrow> nat \<Rightarrow> nat \<times> nat" where
  "leading_digits [] v n = (v, n)"
| "leading_digits (c # cs) v n =
     (if 48 \<le> c \<and> c \<le> 57 then leading_digits cs (10 * v + (unat c - 48)) (Suc n) else (v, n))"

definition decimal_sto :: "nat \<Rightarrow> wstring \<Rightarrow> nat \<Rightarrow> exn + ('a::len word \<times> nat)" where
  "decimal_sto bits s base =
     (case leading_digits s 0 0 of (v, n) \<Rightarrow>
        if n = 0 then Inl (invalid_argument (wide ''invalid argument''))
        else if v \<ge> 2 ^ bits then Inl (out_of_range (wide ''argument out of range''))
        else Inr (of_nat v, n))"

definition example_externals :: externals where
  "example_externals =
     \<lparr>iordinal_equals = ascii_iordinal_equals, stoul = decimal_sto 32, stoull = decimal_sto 64\<rparr>"

section \<open>Argument parsing: properties\<close>

lemmas example_defs =
  wide_def colon_def wcslen_def c_str_def std_find_def try_bind_def erase_def has_x_def
  ParseArgument_def find_parameter_def parameter_value_def
  as_integral_ulong_def as_integral_ushort_def as_integral_ulonglong_def
  towupper_def ascii_iordinal_equals_def decimal_sto_def example_externals_def

lemma take_wcslen: "take (wcslen buf) buf = c_str buf"
  unfolding wcslen_def c_str_def by (rule takeWhile_eq_take [symmetric])

lemma wcslen_le: "wcslen buf \<le> length buf"
  by (simp add: wcslen_def length_takeWhile_le)

lemma takeWhile_holds_before:
  assumes "i < length (takeWhile P xs)"
  shows "P (xs ! i)"
proof -
  have "takeWhile P xs ! i \<in> set (takeWhile P xs)" using assms by (rule nth_mem)
  then have "P (takeWhile P xs ! i)" by (rule set_takeWhileD [THEN conjunct2])
  moreover have "takeWhile P xs ! i = xs ! i" using assms by (rule takeWhile_nth)
  ultimately show ?thesis by simp
qed

lemma std_find_name:
  "std_find buf (wcslen buf) v = length (takeWhile (\<lambda>c. c \<noteq> v) (c_str buf))"
  by (simp add: std_find_def take_wcslen)

lemma takeWhile_nth_stop:
  "length (takeWhile P xs) < length xs \<Longrightarrow> \<not> P (xs ! length (takeWhile P xs))"
  using nth_length_takeWhile by blast

lemma c_str_nth: "i < wcslen buf \<Longrightarrow> c_str buf ! i = buf ! i"
  by (metis take_wcslen nth_take)

lemma c_str_nonzero: "i < wcslen buf \<Longrightarrow> buf ! i \<noteq> 0"
  unfolding wcslen_def by (rule takeWhile_holds_before)

lemma delimiter_is_colon:
  assumes "std_find buf (wcslen buf) colon < wcslen buf"
  shows "buf ! std_find buf (wcslen buf) colon = colon"
proof -
  let ?s = "c_str buf"
  let ?d = "length (takeWhile (\<lambda>c. c \<noteq> colon) ?s)"
  have len: "length ?s = wcslen buf" by (simp add: c_str_def wcslen_def)
  have d: "std_find buf (wcslen buf) colon = ?d" by (rule std_find_name)
  with assms len have "?d < length ?s" by simp
  then have "\<not> (?s ! ?d \<noteq> colon)" by (rule takeWhile_nth_stop)
  moreover have "?s ! ?d = buf ! ?d" using assms d by (simp add: c_str_nth)
  ultimately show ?thesis using d by simp
qed

lemma c_str_terminated_at:
  assumes "d < wcslen buf"
  shows "c_str (buf[d := 0]) = take d buf"
proof -
  have dl: "d < length buf" using assms wcslen_le [of buf] by simp
  have nz: "\<forall>i<d. buf ! i \<noteq> 0" using assms c_str_nonzero by simp
  have split: "buf[d := 0] = take d buf @ 0 # drop (Suc d) buf"
    using dl by (simp add: upd_conv_take_nth_drop)
  have "\<forall>x \<in> set (take d buf). x \<noteq> 0"
    using nz dl by (auto simp: in_set_conv_nth)
  then show ?thesis
    unfolding c_str_def split by (simp add: takeWhile_append2)
qed

lemma take_delimiter_name:
  assumes "std_find buf (wcslen buf) colon < wcslen buf"
  shows "take (std_find buf (wcslen buf) colon) buf = takeWhile (\<lambda>c. c \<noteq> colon) (c_str buf)"
proof -
  let ?s = "c_str buf"
  let ?d = "length (takeWhile (\<lambda>c. c \<noteq> colon) ?s)"
  have "takeWhile (\<lambda>c. c \<noteq> colon) ?s = take ?d ?s" by (rule takeWhile_eq_take)
  also have "\<dots> = take ?d (take (wcslen buf) buf)" by (simp add: take_wcslen)
  also have "\<dots> = take ?d buf" using assms by (simp add: std_find_name min_def)
  finally show ?thesis by (simp add: std_find_name)
qed

lemma colon_followed_iff:
  "(\<exists>i. Suc i < wcslen buf \<and> buf ! i = colon) \<longleftrightarrow> Suc (std_find buf (wcslen buf) colon) < wcslen buf"
proof
  assume "\<exists>i. Suc i < wcslen buf \<and> buf ! i = colon"
  then obtain i where i: "Suc i < wcslen buf" "buf ! i = colon" by blast
  let ?s = "c_str buf"
  have "?s ! i = colon" using i by (simp add: c_str_nth)
  then have "length (takeWhile (\<lambda>c. c \<noteq> colon) ?s) \<le> i"
    using takeWhile_holds_before [of i "\<lambda>c. c \<noteq> colon" ?s]
    by (cases "i < length (takeWhile (\<lambda>c. c \<noteq> colon) ?s)") simp_all
  then show "Suc (std_find buf (wcslen buf) colon) < wcslen buf"
    using i by (simp add: std_find_name)
next
  assume a: "Suc (std_find buf (wcslen buf) colon) < wcslen buf"
  then have "std_find buf (wcslen buf) colon < wcslen buf" by simp
  then have "buf ! std_find buf (wcslen buf) colon = colon" by (rule delimiter_is_colon)
  with a show "\<exists>i. Suc i < wcslen buf \<and> buf ! i = colon" by blast
qed

lemma ParseArgument_eq:
  "ParseArgument ieq input expected =
     (if (\<exists>i. Suc i < wcslen input \<and> input ! i = colon)
      then Inr (if ieq expected (takeWhile (\<lambda>c. c \<noteq> colon) (c_str input))
                then Some (Suc (length (takeWhile (\<lambda>c. c \<noteq> colon) (c_str input))))
                else None,
                input)
      else Inl (invalid_argument (wide ''Invalid argument'')))"
proof (cases "Suc (std_find input (wcslen input) colon) < wcslen input")
  case True
  let ?d = "std_find input (wcslen input) colon"
  have d: "?d < wcslen input" using True by simp
  have restore: "input[?d := 0, ?d := colon] = input"
    using delimiter_is_colon [OF d] by (metis list_update_id list_update_overwrite)
  have cmp: "c_str (input[?d := 0]) = takeWhile (\<lambda>c. c \<noteq> colon) (c_str input)"
    using c_str_terminated_at [OF d] take_delimiter_name [OF d] by simp
  have ex: "\<exists>i. Suc i < wcslen input \<and> input ! i = colon"
    using True colon_followed_iff by blast
  show ?thesis
    using True ex restore cmp
    by (simp add: ParseArgument_def Let_def std_find_name [symmetric])
next
  case False
  then have "\<not> (\<exists>i. Suc i < wcslen input \<and> input ! i = colon)"
    using colon_followed_iff by blast
  with False show ?thesis
    by (simp add: ParseArgument_def Let_def)
qed

lemma ParseArgument_buffer_unchanged:
  "ParseArgument ieq input expected = Inr (v, buf) \<Longrightarrow> buf = input"
  by (simp add: ParseArgument_eq split: if_splits)

text \<open>
  Claim C9. \<^verbatim>\<open>ParseArgument\<close> throws \<^verbatim>\<open>invalid_argument\<close> exactly when the input
  has no \<open>:\<close> followed by at least one character. Otherwise it returns, and then: the
  input buffer is what it was before the call (the \<open>:\<close> overwritten with the terminator
  is restored); the result is non-null exactly when the input up to its first \<open>:\<close>
  equals the expected name under the case-insensitive comparison; and a non-null result
  points into the input, at the character after that \<open>:\<close>.
\<close>

theorem ParseArgument_result_and_frame:
  "ParseArgument ieq input expected =
     (if (\<exists>i. Suc i < wcslen input \<and> input ! i = colon)
      then Inr (if ieq expected (takeWhile (\<lambda>c. c \<noteq> colon) (c_str input))
                then Some (Suc (length (takeWhile (\<lambda>c. c \<noteq> colon) (c_str input))))
                else None,
                input)
      else Inl (invalid_argument (wide ''Invalid argument'')))"
proof (cases "\<exists>i. Suc i < wcslen input \<and> input ! i = colon")
  case True
  then have d: "Suc (std_find input (wcslen input) colon) < wcslen input"
    by (simp only: colon_followed_iff)
  from True show ?thesis by (simp only: ParseArgument_eq if_True)
next
  case False
  then show ?thesis by (simp only: ParseArgument_eq if_False)
qed

theorem ParseArgument_result_and_frame_witness:
  "ParseArgument ascii_iordinal_equals (wide ''-port:80'' @ [0]) (wide ''-Port'')
     = Inr (Some 6, wide ''-port:80'' @ [0])
   \<and> ParseArgument ascii_iordinal_equals (wide ''-port:80'' @ [0]) (wide ''-verify'')
     = Inr (None, wide ''-port:80'' @ [0])
   \<and> ParseArgument ascii_iordinal_equals (wide ''-port:'' @ [0]) (wide ''-Port'')
     = Inl (invalid_argument (wide ''Invalid argument''))"
proof -
  have a: "\<exists>i. Suc i < wcslen (wide ''-port:80'' @ [0]) \<and> (wide ''-port:80'' @ [0]) ! i = colon"
    by (simp only: colon_followed_iff) (simp add: example_defs)
  have b: "\<not> (\<exists>i. Suc i < wcslen (wide ''-port:'' @ [0]) \<and> (wide ''-port:'' @ [0]) ! i = colon)"
    by (simp only: colon_followed_iff) (simp add: example_defs)
  show ?thesis
    using a b
      ParseArgument_result_and_frame [of ascii_iordinal_equals "wide ''-port:80'' @ [0]" "wide ''-Port''"]
      ParseArgument_result_and_frame [of ascii_iordinal_equals "wide ''-port:80'' @ [0]" "wide ''-verify''"]
      ParseArgument_result_and_frame [of ascii_iordinal_equals "wide ''-port:'' @ [0]" "wide ''-Port''"]
    by (simp add: wide_def c_str_def colon_def ascii_iordinal_equals_def towupper_def)
qed

section \<open>The broker: counters of the constructor\<close>

declare refill.simps [simp del] ctor_fill.simps [simp del]

lemma unat_32_bound: "unat (w :: 32 word) < 4294967296"
  using unsigned_less [of w] by simp

lemma unat_64_bound: "unat (w :: 64 word) < 18446744073709551616"
  using unsigned_less [of w] by simp

lemma unat_ucast_32_64: "unat (ucast (w :: 32 word) :: 64 word) = unat w"
proof -
  have "unat w < 2 ^ 64" using unat_32_bound [of w] by simp
  then show ?thesis by (simp add: unsigned_ucast_eq take_bit_nat_eq_self)
qed

lemma unat_ucast_64_32:
  assumes "unat (t :: 64 word) < 2 ^ 32"
  shows "unat (ucast t :: 32 word) = unat t"
  using assms by (simp add: unsigned_ucast_eq take_bit_nat_eq_self)

lemma limits_total:
  "total_connections_remaining (ctsSocketBroker_limits Settings) =
     (if AcceptFunction Settings then ServerExitLimit Settings
      else if Iterations Settings = MAXULONGLONG then MAXULONGLONG
      else Iterations_times (Iterations Settings) (ucast (ConnectionLimit Settings)))"
  by (simp add: ctsSocketBroker_limits_def Let_def)

lemma limits_pending_limit:
  "unat (pending_limit (ctsSocketBroker_limits Settings)) =
     min (unat (if AcceptFunction Settings then AcceptLimit Settings else ConnectionLimit Settings))
         (unat (total_connections_remaining (ctsSocketBroker_limits Settings)))"
proof -
  let ?t = "total_connections_remaining (ctsSocketBroker_limits Settings)"
  let ?l = "if AcceptFunction Settings then AcceptLimit Settings else ConnectionLimit Settings"
  show ?thesis
  proof (cases "ucast ?l > ?t")
    case True
    then have lt: "unat ?t < unat ?l"
      by (simp add: word_less_nat_alt unat_ucast_32_64 limits_total split: if_splits)
    then have "unat ?t < 2 ^ 32" using unat_32_bound [of ?l] by simp
    then have "unat (ucast ?t :: 32 word) = unat ?t" by (rule unat_ucast_64_32)
    moreover have "pending_limit (ctsSocketBroker_limits Settings) = ucast ?t"
      using True by (simp add: ctsSocketBroker_limits_def Let_def split: if_splits)
    ultimately show ?thesis using lt by (simp add: min_def)
  next
    case False
    then have ge: "unat ?l \<le> unat ?t"
      by (simp add: word_less_nat_alt unat_ucast_32_64 limits_total split: if_splits)
    moreover have "pending_limit (ctsSocketBroker_limits Settings) = ?l"
      using False by (simp add: ctsSocketBroker_limits_def Let_def split: if_splits)
    ultimately show ?thesis by (simp add: min_def)
  qed
qed

lemma limits_others:
  "socket_pool (ctsSocketBroker_limits Settings) = []"
  "pending_sockets (ctsSocketBroker_limits Settings) = 0"
  "active_sockets (ctsSocketBroker_limits Settings) = 0"
  "done_event (ctsSocketBroker_limits Settings) = False"
  by (simp_all add: ctsSocketBroker_limits_def Let_def)

lemma Iterations_times_unat:
  "unat (Iterations_times x y) = min (unat x * unat y) (2 ^ 64 - 1)"
proof (cases "unat x * unat y < 2 ^ 64")
  case True
  then have "unat (x * y) = unat x * unat y"
    by (simp add: unat_word_ariths)
  with True show ?thesis by (simp add: Iterations_times_def)
next
  case False
  then show ?thesis by (simp add: Iterations_times_def MAXULONGLONG_def)
qed

text \<open>
  Claim C3. At construction the server's total is \<open>ServerExitLimit\<close>. The client's
  total is the unbounded sentinel when \<open>Iterations\<close> is unbounded, and otherwise the
  saturating product of \<open>Iterations\<close> and \<open>ConnectionLimit\<close>, for every value of the
  two: their product as natural numbers, or the largest 64-bit value when that is
  smaller (the product of line 52 is \<open>Iterations_times\<close>, modelled above).
  \<open>pending_limit\<close> is then the smaller of the role's limit and the total, hence at most
  the total.
\<close>

theorem limits_totals_and_clamp:
  "(AcceptFunction Settings \<longrightarrow>
      total_connections_remaining (ctsSocketBroker_limits Settings) = ServerExitLimit Settings)
   \<and> (\<not> AcceptFunction Settings \<and> Iterations Settings = MAXULONGLONG \<longrightarrow>
      total_connections_remaining (ctsSocketBroker_limits Settings) = MAXULONGLONG)
   \<and> (\<not> AcceptFunction Settings \<and> Iterations Settings \<noteq> MAXULONGLONG \<longrightarrow>
      unat (total_connections_remaining (ctsSocketBroker_limits Settings)) =
        min (unat (Iterations Settings) * unat (ConnectionLimit Settings)) (2 ^ 64 - 1))
   \<and> unat (pending_limit (ctsSocketBroker_limits Settings)) =
        min (unat (if AcceptFunction Settings then AcceptLimit Settings else ConnectionLimit Settings))
            (unat (total_connections_remaining (ctsSocketBroker_limits Settings)))
   \<and> ucast (pending_limit (ctsSocketBroker_limits Settings))
        \<le> total_connections_remaining (ctsSocketBroker_limits Settings)"
proof -
  let ?b = "ctsSocketBroker_limits Settings"
  have prod: "unat (Iterations_times (Iterations Settings) (ucast (ConnectionLimit Settings))) =
      min (unat (Iterations Settings) * unat (ConnectionLimit Settings)) (2 ^ 64 - 1)"
    by (simp only: Iterations_times_unat unat_ucast_32_64)
  have clamp: "ucast (pending_limit ?b) \<le> total_connections_remaining ?b"
    by (simp add: word_le_nat_alt unat_ucast_32_64 limits_pending_limit)
  show ?thesis
    using prod clamp limits_pending_limit [of Settings]
    by (simp add: limits_total)
qed

theorem limits_totals_and_clamp_witness:
  "total_connections_remaining (ctsSocketBroker_limits (example_settings False 3 4 2)) = 12
   \<and> pending_limit (ctsSocketBroker_limits (example_settings False 3 4 2)) = 4
   \<and> total_connections_remaining
        (ctsSocketBroker_limits (example_settings False 0x8000000000000000 2 2))
       = MAXULONGLONG
   \<and> total_connections_remaining (ctsSocketBroker_limits (example_settings False MAXULONGLONG 4 2))
       = MAXULONGLONG
   \<and> total_connections_remaining (ctsSocketBroker_limits (example_settings True 3 4 2))
       = MAXULONGLONG
   \<and> unat (pending_limit (ctsSocketBroker_limits (example_settings True 3 4 2))) = 100"
  using limits_totals_and_clamp [of "example_settings False 3 4 2"]
    limits_totals_and_clamp [of "example_settings False 0x8000000000000000 2 2"]
    limits_totals_and_clamp [of "example_settings False MAXULONGLONG 4 2"]
    limits_totals_and_clamp [of "example_settings True 3 4 2"]
  by (simp add: example_settings_def MAXULONGLONG_def word_unat_eq_iff)

section \<open>The broker: initiating_io and closing\<close>

text \<open>
  Claim C6, as stated, fails for \<^verbatim>\<open>closing\<close>: it does not decrement in every state.
  With \<open>active_sockets = 0\<close> and \<open>was_active\<close> true, and with \<open>pending_sockets = 0\<close>
  and \<open>was_active\<close> false, the call is fatal.
\<close>

theorem closing_fatal_at_zero:
  "closing (example_broker [Pending] 0 1 1 0) True =
     Inl (ctFatalCondition ''ctsSocketBroker::closing - About to decrement active_sockets, but active_sockets == 0'')
   \<and> closing (example_broker [Active] 0 1 0 1) False =
     Inl (ctFatalCondition ''ctsSocketBroker::closing - About to decrement pending_sockets, but pending_sockets == 0'')"
  by (simp add: closing_def example_broker_def)

text \<open>
  Claim C6, amended. In a state with \<open>pending_sockets > 0\<close>, \<^verbatim>\<open>initiating_io\<close>
  decrements \<open>pending_sockets\<close> by exactly one and adds one to \<open>active_sockets\<close> in
  32-bit arithmetic, leaving their 32-bit sum and every other member unchanged.
  \<^verbatim>\<open>closing\<close> decrements \<open>active_sockets\<close> by exactly one when \<open>was_active\<close> is true
  and \<open>active_sockets > 0\<close>, decrements \<open>pending_sockets\<close> by exactly one when
  \<open>was_active\<close> is false and \<open>pending_sockets > 0\<close>, and changes no other member. When
  the counter to decrement is zero the call is fatal.
\<close>

theorem counter_updates:
  "(pending_sockets b \<noteq> 0 \<longrightarrow>
      initiating_io b = Inr (b\<lparr>pending_sockets := pending_sockets b - 1,
                                 active_sockets := active_sockets b + 1\<rparr>)
      \<and> unat (pending_sockets b - 1) = unat (pending_sockets b) - 1
      \<and> unat (active_sockets b + 1) = (unat (active_sockets b) + 1) mod 2 ^ 32
      \<and> (pending_sockets b - 1) + (active_sockets b + 1) = pending_sockets b + active_sockets b)
   \<and> (active_sockets b \<noteq> 0 \<longrightarrow>
      closing b True = Inr (b\<lparr>active_sockets := active_sockets b - 1\<rparr>)
      \<and> unat (active_sockets b - 1) = unat (active_sockets b) - 1)
   \<and> (pending_sockets b \<noteq> 0 \<longrightarrow>
      closing b False = Inr (b\<lparr>pending_sockets := pending_sockets b - 1\<rparr>)
      \<and> unat (pending_sockets b - 1) = unat (pending_sockets b) - 1)
   \<and> (active_sockets b = 0 \<longrightarrow> (\<exists>f. closing b True = Inl f))
   \<and> (pending_sockets b = 0 \<longrightarrow> (\<exists>f. closing b False = Inl f) \<and> (\<exists>f. initiating_io b = Inl f))"
proof -
  have inc: "unat (active_sockets b + 1) = (unat (active_sockets b) + 1) mod 2 ^ 32"
    by (simp add: unat_word_ariths)
  show ?thesis
    using inc by (simp add: initiating_io_def closing_def unat_minus_one)
qed

theorem counter_updates_witness:
  "initiating_io (example_broker [Pending, Pending, Active] 10 4 2 1)
     = Inr (example_broker [Pending, Pending, Active] 10 4 1 2)
   \<and> closing (example_broker [Pending, Pending, Active] 10 4 2 1) True
     = Inr (example_broker [Pending, Pending, Active] 10 4 2 0)
   \<and> closing (example_broker [Pending, Pending, Active] 10 4 2 1) False
     = Inr (example_broker [Pending, Pending, Active] 10 4 1 1)
   \<and> (\<exists>f. closing (example_broker [Pending] 0 1 1 0) True = Inl f)
   \<and> (\<exists>f. initiating_io (example_broker [Active] 0 1 0 1) = Inl f)"
  using counter_updates [of "example_broker [Pending, Pending, Active] 10 4 2 1"]
    counter_updates [of "example_broker [Pending] 0 1 1 0"]
    counter_updates [of "example_broker [Active] 0 1 0 1"]
  by (simp add: example_broker_def)

section \<open>The broker: the two loops\<close>

lemma refill_unfold:
  "refill Settings env b =
     (if spec_create_condition Settings b \<and> make_shared env b
      then refill Settings env (push_back_started b) else b)"
  by (subst refill.simps) (auto simp: spec_create_condition_def not_le)

lemma refill_iterates:
  "\<exists>k. refill Settings env b = (push_back_started ^^ k) b
     \<and> (\<forall>j<k. spec_create_condition Settings ((push_back_started ^^ j) b)
              \<and> make_shared env ((push_back_started ^^ j) b))
     \<and> \<not> (spec_create_condition Settings (refill Settings env b)
          \<and> make_shared env (refill Settings env b))"
proof (induction Settings env b rule: refill.induct)
  case (1 Settings env b)
  show ?case
  proof (cases "spec_create_condition Settings b \<and> make_shared env b")
    case False
    then have "refill Settings env b = b"
      by (simp only: refill_unfold [of Settings env b] if_False simp_thms)
    with False show ?thesis by (intro exI [of _ 0]) simp
  next
    case True
    then have unf: "refill Settings env b = refill Settings env (push_back_started b)"
      by (simp only: refill_unfold [of Settings env b] if_True simp_thms)
    from True have "\<exists>k. refill Settings env (push_back_started b) = (push_back_started ^^ k) (push_back_started b)
      \<and> (\<forall>j<k. spec_create_condition Settings ((push_back_started ^^ j) (push_back_started b))
              \<and> make_shared env ((push_back_started ^^ j) (push_back_started b)))
      \<and> \<not> (spec_create_condition Settings (refill Settings env (push_back_started b))
          \<and> make_shared env (refill Settings env (push_back_started b)))"
      by (intro "1.IH") (auto simp: spec_create_condition_def not_le)
    then obtain k where k:
      "refill Settings env (push_back_started b) = (push_back_started ^^ k) (push_back_started b)"
      "\<forall>j<k. spec_create_condition Settings ((push_back_started ^^ j) (push_back_started b))
              \<and> make_shared env ((push_back_started ^^ j) (push_back_started b))"
      "\<not> (spec_create_condition Settings (refill Settings env (push_back_started b))
          \<and> make_shared env (refill Settings env (push_back_started b)))"
      by blast
    have "\<forall>j<Suc k. spec_create_condition Settings ((push_back_started ^^ j) b)
              \<and> make_shared env ((push_back_started ^^ j) b)"
    proof (intro allI impI)
      fix j assume "j < Suc k"
      show "spec_create_condition Settings ((push_back_started ^^ j) b)
              \<and> make_shared env ((push_back_started ^^ j) b)"
      proof (cases j)
        case 0 with True show ?thesis by simp
      next
        case (Suc j')
        with \<open>j < Suc k\<close> have "j' < k" by simp
        with k(2) Suc show ?thesis by (simp add: funpow_swap1)
      qed
    qed
    with k(1,3) unf show ?thesis
      by (intro exI [of _ "Suc k"]) (simp add: funpow_swap1)
  qed
qed

text \<open>The members after \<open>k\<close> records have been created and counted.\<close>

lemma created_members:
  "socket_pool ((push_back_started ^^ k) b) = socket_pool b @ replicate k Pending"
  "pending_sockets ((push_back_started ^^ k) b) = pending_sockets b + of_nat k"
  "total_connections_remaining ((push_back_started ^^ k) b) = total_connections_remaining b - of_nat k"
  "pending_limit ((push_back_started ^^ k) b) = pending_limit b"
  "active_sockets ((push_back_started ^^ k) b) = active_sockets b"
  "done_event ((push_back_started ^^ k) b) = done_event b"
  by (induction k) (simp_all add: push_back_started_def replicate_append_same)

lemma created_total_exact:
  assumes "\<forall>j<k. total_connections_remaining ((push_back_started ^^ j) b) > 0"
  shows "unat (total_connections_remaining ((push_back_started ^^ k) b)) + k
           = unat (total_connections_remaining b)"
  using assms
proof (induction k)
  case 0
  show ?case by simp
next
  case (Suc k)
  let ?t = "total_connections_remaining ((push_back_started ^^ k) b)"
  from Suc.prems have nz: "?t \<noteq> 0" by (simp add: word_gt_0)
  from Suc.prems have "\<forall>j<k. total_connections_remaining ((push_back_started ^^ j) b) > 0" by simp
  then have ih: "unat ?t + k = unat (total_connections_remaining b)" by (rule Suc.IH)
  have "total_connections_remaining ((push_back_started ^^ Suc k) b) = ?t - 1"
    by (simp add: push_back_started_def)
  moreover have "unat (?t - 1) = unat ?t - 1" using nz by (rule unat_minus_one)
  moreover have "unat ?t \<noteq> 0" using nz by (simp add: unat_eq_zero)
  ultimately show ?case using ih by simp
qed

lemma unat_plus_one_below:
  assumes "(p :: 32 word) < l"
  shows "unat (p + 1) = unat p + 1"
proof -
  have "unat p < unat l" using assms by (simp add: word_less_nat_alt)
  then have "unat p + unat (1 :: 32 word) < 2 ^ LENGTH(32)"
    using unat_32_bound [of l] by simp
  then show ?thesis by (simp only: unat_add_lem [THEN iffD1] unat_1)
qed

lemma created_pending_exact:
  assumes "\<forall>j<k. pending_sockets ((push_back_started ^^ j) b) < pending_limit ((push_back_started ^^ j) b)"
  shows "unat (pending_sockets ((push_back_started ^^ k) b)) = unat (pending_sockets b) + k"
  using assms
proof (induction k)
  case 0
  show ?case by simp
next
  case (Suc k)
  let ?p = "pending_sockets ((push_back_started ^^ k) b)"
  from Suc.prems have lt: "?p < pending_limit ((push_back_started ^^ k) b)" by simp
  from Suc.prems have "\<forall>j<k. pending_sockets ((push_back_started ^^ j) b) < pending_limit ((push_back_started ^^ j) b)"
    by simp
  then have ih: "unat ?p = unat (pending_sockets b) + k" by (rule Suc.IH)
  have "pending_sockets ((push_back_started ^^ Suc k) b) = ?p + 1"
    by (simp add: push_back_started_def)
  moreover have "unat (?p + 1) = unat ?p + 1" using lt by (rule unat_plus_one_below)
  ultimately show ?case using ih by simp
qed

lemma ctor_fill_unfold:
  "ctor_fill Settings env b =
     (if total_connections_remaining b > 0 \<and> pending_sockets b < pending_limit b then
        if \<not> make_shared env b then Inl (std_exception (wide ''bad allocation''))
        else if \<not> AcceptFunction Settings
                \<and> ConnectionThrottleLimit Settings = pending_sockets (push_back_started b)
        then Inr (push_back_started b)
        else ctor_fill Settings env (push_back_started b)
      else Inr b)"
  by (subst ctor_fill.simps) (simp add: Let_def)

lemma ctor_fill_iterates:
  "ctor_fill Settings env b = Inr b' \<Longrightarrow>
   \<exists>k. b' = (push_back_started ^^ k) b
     \<and> (\<forall>j<k. total_connections_remaining ((push_back_started ^^ j) b) > 0
              \<and> pending_sockets ((push_back_started ^^ j) b) < pending_limit ((push_back_started ^^ j) b)
              \<and> make_shared env ((push_back_started ^^ j) b))"
proof (induction Settings env b rule: ctor_fill.induct)
  case (1 Settings env b)
  let ?go = "total_connections_remaining b > 0 \<and> pending_sockets b < pending_limit b"
  let ?stop = "\<not> AcceptFunction Settings
                \<and> ConnectionThrottleLimit Settings = pending_sockets (push_back_started b)"
  show ?case
  proof (cases ?go)
    case False
    with "1.prems" have "b' = b"
      by (simp add: ctor_fill_unfold [of Settings env b])
    then show ?thesis by (intro exI [of _ 0]) simp
  next
    case go: True
    with "1.prems" have ms: "make_shared env b"
      by (simp add: ctor_fill_unfold [of Settings env b] split: if_splits)
    have first: "\<forall>j<Suc 0. total_connections_remaining ((push_back_started ^^ j) b) > 0
              \<and> pending_sockets ((push_back_started ^^ j) b) < pending_limit ((push_back_started ^^ j) b)
              \<and> make_shared env ((push_back_started ^^ j) b)"
      using go ms by simp
    show ?thesis
    proof (cases ?stop)
      case True
      with go ms "1.prems" have "b' = push_back_started b"
        by (simp add: ctor_fill_unfold [of Settings env b])
      with first show ?thesis by (intro exI [of _ "Suc 0"]) simp
    next
      case False
      with go ms "1.prems" have rec: "ctor_fill Settings env (push_back_started b) = Inr b'"
        by (simp add: ctor_fill_unfold [of Settings env b])
      have "\<exists>k. b' = (push_back_started ^^ k) (push_back_started b)
        \<and> (\<forall>j<k. total_connections_remaining ((push_back_started ^^ j) (push_back_started b)) > 0
              \<and> pending_sockets ((push_back_started ^^ j) (push_back_started b))
                  < pending_limit ((push_back_started ^^ j) (push_back_started b))
              \<and> make_shared env ((push_back_started ^^ j) (push_back_started b)))"
        using go ms False rec by (intro "1.IH") auto
      then obtain k where k:
        "b' = (push_back_started ^^ k) (push_back_started b)"
        "\<forall>j<k. total_connections_remaining ((push_back_started ^^ j) (push_back_started b)) > 0
              \<and> pending_sockets ((push_back_started ^^ j) (push_back_started b))
                  < pending_limit ((push_back_started ^^ j) (push_back_started b))
              \<and> make_shared env ((push_back_started ^^ j) (push_back_started b))"
        by blast
      have "\<forall>j<Suc k. total_connections_remaining ((push_back_started ^^ j) b) > 0
              \<and> pending_sockets ((push_back_started ^^ j) b) < pending_limit ((push_back_started ^^ j) b)
              \<and> make_shared env ((push_back_started ^^ j) b)"
      proof (intro allI impI)
        fix j assume "j < Suc k"
        show "total_connections_remaining ((push_back_started ^^ j) b) > 0
              \<and> pending_sockets ((push_back_started ^^ j) b) < pending_limit ((push_back_started ^^ j) b)
              \<and> make_shared env ((push_back_started ^^ j) b)"
        proof (cases j)
          case 0 with go ms show ?thesis by simp
        next
          case (Suc j')
          with \<open>j < Suc k\<close> have "j' < k" by simp
          with k(2) Suc show ?thesis by (simp add: funpow_swap1)
        qed
      qed
      with k(1) show ?thesis
        by (intro exI [of _ "Suc k"]) (simp add: funpow_swap1)
    qed
  qed
qed

lemma ctor_init_Inr:
  "ctor_init Settings env = Inr b \<Longrightarrow> b = ctsSocketBroker_limits Settings"
  by (simp add: ctor_init_def Let_def split: if_splits)

lemma new_ctsSocketBroker_Inr:
  assumes "new_ctsSocketBroker Settings env early = Inr b"
  shows "\<exists>b1. run Settings (ctsSocketBroker_limits Settings) early = Inr b1
           \<and> ctor_fill Settings env b1 = Inr b"
proof -
  from assms obtain b0 b1 where s: "ctor_init Settings env = Inr b0"
    "run Settings b0 early = Inr b1" "ctor_fill Settings env b1 = Inr b"
    by (auto simp: new_ctsSocketBroker_def split: sum.splits)
  from s(1) have "b0 = ctsSocketBroker_limits Settings" by (rule ctor_init_Inr)
  with s(2,3) show ?thesis by simp
qed

lemma new_ctsSocketBroker_first:
  assumes "new_ctsSocketBroker Settings env [] = Inr b"
  shows "ctor_fill Settings env (ctsSocketBroker_limits Settings) = Inr b"
  using new_ctsSocketBroker_Inr [OF assms] by simp

text \<open>What the timer callback does, by cases.\<close>

lemma reaped_members:
  "total_connections_remaining (reaped b) = total_connections_remaining b"
  "pending_limit (reaped b) = pending_limit b"
  "pending_sockets (reaped b) = pending_sockets b"
  "active_sockets (reaped b) = active_sockets b"
  "done_event (reaped b) = done_event b"
  by (simp_all add: reaped_def)

lemma TimerCallback_cases:
  "TimerCallback Settings env b =
     (if total_connections_remaining b = 0 \<and> pending_sockets b = 0 \<and> active_sockets b = 0
      then (reaped b)\<lparr>done_event := True\<rparr>
      else if done_event b then reaped b
      else refill Settings env (reaped b))"
  by (auto simp: TimerCallback_def reaped_members Let_def)

lemma refill_done_event: "done_event (refill Settings env b) = done_event b"
proof -
  obtain k where "refill Settings env b = (push_back_started ^^ k) b"
    using refill_iterates [of Settings env b] by blast
  then show ?thesis by (simp add: created_members)
qed

text \<open>
  Claim C2. The timer callback sets the done event exactly when
  \<open>total_connections_remaining\<close>, \<open>pending_sockets\<close> and \<open>active_sockets\<close> are all
  zero, and then creates nothing. In any other state it leaves the event as it is;
  when the event is already set it creates nothing; otherwise it creates records one
  by one, each in a state where \<open>pending_sockets < pending_limit\<close>,
  \<open>total_connections_remaining > 0\<close> and, for the client role, the connection limit and
  the throttle limit leave room, and it stops only in a state where that condition
  fails or where creating a record throws.
\<close>

theorem TimerCallback_done_or_refill:
  "(done_event (TimerCallback Settings env b) \<longleftrightarrow>
      done_event b \<or>
      (total_connections_remaining b = 0 \<and> pending_sockets b = 0 \<and> active_sockets b = 0))
   \<and> (total_connections_remaining b = 0 \<and> pending_sockets b = 0 \<and> active_sockets b = 0 \<longrightarrow>
        TimerCallback Settings env b = (reaped b)\<lparr>done_event := True\<rparr>)
   \<and> (\<not> (total_connections_remaining b = 0 \<and> pending_sockets b = 0 \<and> active_sockets b = 0)
        \<and> done_event b \<longrightarrow>
        TimerCallback Settings env b = reaped b)
   \<and> (\<not> (total_connections_remaining b = 0 \<and> pending_sockets b = 0 \<and> active_sockets b = 0)
        \<and> \<not> done_event b \<longrightarrow>
        (\<exists>k. TimerCallback Settings env b = (push_back_started ^^ k) (reaped b)
           \<and> (\<forall>j<k. spec_create_condition Settings ((push_back_started ^^ j) (reaped b)))
           \<and> (\<not> spec_create_condition Settings (TimerCallback Settings env b)
                \<or> \<not> make_shared env (TimerCallback Settings env b))))"
proof -
  let ?zeros = "total_connections_remaining b = 0 \<and> pending_sockets b = 0 \<and> active_sockets b = 0"
  have signalled: "done_event (TimerCallback Settings env b) \<longleftrightarrow> done_event b \<or> ?zeros"
    by (simp add: TimerCallback_cases refill_done_event reaped_members)
  have at_zero: "?zeros \<longrightarrow> TimerCallback Settings env b = (reaped b)\<lparr>done_event := True\<rparr>"
    by (simp add: TimerCallback_cases)
  have shut: "\<not> ?zeros \<and> done_event b \<longrightarrow> TimerCallback Settings env b = reaped b"
    by (simp add: TimerCallback_cases)
  have loop: "\<not> ?zeros \<and> \<not> done_event b \<longrightarrow>
        (\<exists>k. TimerCallback Settings env b = (push_back_started ^^ k) (reaped b)
           \<and> (\<forall>j<k. spec_create_condition Settings ((push_back_started ^^ j) (reaped b)))
           \<and> (\<not> spec_create_condition Settings (TimerCallback Settings env b)
                \<or> \<not> make_shared env (TimerCallback Settings env b)))"
  proof (intro impI)
    assume a: "\<not> ?zeros \<and> \<not> done_event b"
    then have tc: "TimerCallback Settings env b = refill Settings env (reaped b)"
      by (simp only: TimerCallback_cases if_False simp_thms)
    obtain k where k:
      "refill Settings env (reaped b) = (push_back_started ^^ k) (reaped b)"
      "\<forall>j<k. spec_create_condition Settings ((push_back_started ^^ j) (reaped b))
              \<and> make_shared env ((push_back_started ^^ j) (reaped b))"
      "\<not> (spec_create_condition Settings (refill Settings env (reaped b))
          \<and> make_shared env (refill Settings env (reaped b)))"
      using refill_iterates [of Settings env "reaped b"] by blast
    show "\<exists>k. TimerCallback Settings env b = (push_back_started ^^ k) (reaped b)
           \<and> (\<forall>j<k. spec_create_condition Settings ((push_back_started ^^ j) (reaped b)))
           \<and> (\<not> spec_create_condition Settings (TimerCallback Settings env b)
                \<or> \<not> make_shared env (TimerCallback Settings env b))"
      unfolding tc using k by (intro exI [of _ k]) blast
  qed
  from signalled at_zero shut loop show ?thesis by blast
qed


lemmas broker_example_defs =
  example_settings_def example_broker_def example_environment_def
  TimerCallback_def reaped_def is_closed_def push_back_started_def spec_create_condition_def
  new_ctsSocketBroker_def ctor_init_def ctsSocketBroker_limits_def Iterations_times_def
  ctor_fill.simps refill.simps
  MAXULONGLONG_def Let_def word_le_nat_alt word_less_nat_alt

text \<open>
  Claim C4. Each record the broker constructs, in the loop of the constructor and in
  the loop of the timer callback, is constructed in a state with
  \<open>total_connections_remaining > 0\<close> and takes exactly one from it: after \<open>k\<close>
  constructions the counter, read as a natural number, is \<open>k\<close> less than before, so it
  never wraps below zero. The loop of the constructor starts in the state \<open>b1\<close> that
  the calls before it leave, the limits of the settings when there is none.
\<close>

theorem total_connections_remaining_counts_constructions:
  "(new_ctsSocketBroker Settings env early = Inr b' \<longrightarrow>
      (\<exists>b1 k. run Settings (ctsSocketBroker_limits Settings) early = Inr b1
         \<and> b' = (push_back_started ^^ k) b1
         \<and> socket_pool b' = socket_pool b1 @ replicate k Pending
         \<and> (\<forall>j<k. total_connections_remaining ((push_back_started ^^ j) b1) > 0)
         \<and> unat (total_connections_remaining b') + k
             = unat (total_connections_remaining b1)))
   \<and> (\<exists>k d. TimerCallback Settings env b = ((push_back_started ^^ k) (reaped b))\<lparr>done_event := d\<rparr>
         \<and> socket_pool (TimerCallback Settings env b) = socket_pool (reaped b) @ replicate k Pending
         \<and> (\<forall>j<k. total_connections_remaining ((push_back_started ^^ j) (reaped b)) > 0)
         \<and> unat (total_connections_remaining (TimerCallback Settings env b)) + k
             = unat (total_connections_remaining b))
   \<and> total_connections_remaining (push_back_started b) = total_connections_remaining b - 1
   \<and> (total_connections_remaining b > 0 \<longrightarrow>
        unat (total_connections_remaining (push_back_started b)) + 1
          = unat (total_connections_remaining b))"
proof -
  have ctor: "new_ctsSocketBroker Settings env early = Inr b' \<longrightarrow>
      (\<exists>b1 k. run Settings (ctsSocketBroker_limits Settings) early = Inr b1
         \<and> b' = (push_back_started ^^ k) b1
         \<and> socket_pool b' = socket_pool b1 @ replicate k Pending
         \<and> (\<forall>j<k. total_connections_remaining ((push_back_started ^^ j) b1) > 0)
         \<and> unat (total_connections_remaining b') + k
             = unat (total_connections_remaining b1))"
  proof
    assume "new_ctsSocketBroker Settings env early = Inr b'"
    then obtain b1 where b1: "run Settings (ctsSocketBroker_limits Settings) early = Inr b1"
      "ctor_fill Settings env b1 = Inr b'"
      using new_ctsSocketBroker_Inr by blast
    from b1(2) obtain k where k: "b' = (push_back_started ^^ k) b1"
      "\<forall>j<k. total_connections_remaining ((push_back_started ^^ j) b1) > 0
              \<and> pending_sockets ((push_back_started ^^ j) b1) < pending_limit ((push_back_started ^^ j) b1)
              \<and> make_shared env ((push_back_started ^^ j) b1)"
      using ctor_fill_iterates by blast
    from k(2) have pos: "\<forall>j<k. total_connections_remaining ((push_back_started ^^ j) b1) > 0"
      by blast
    then have "unat (total_connections_remaining ((push_back_started ^^ k) b1)) + k
        = unat (total_connections_remaining b1)"
      by (rule created_total_exact)
    then have exact: "unat (total_connections_remaining b') + k
        = unat (total_connections_remaining b1)"
      by (simp only: k(1))
    have pool: "socket_pool b' = socket_pool b1 @ replicate k Pending"
      by (simp only: k(1) created_members)
    show "\<exists>b1 k. run Settings (ctsSocketBroker_limits Settings) early = Inr b1
         \<and> b' = (push_back_started ^^ k) b1
         \<and> socket_pool b' = socket_pool b1 @ replicate k Pending
         \<and> (\<forall>j<k. total_connections_remaining ((push_back_started ^^ j) b1) > 0)
         \<and> unat (total_connections_remaining b') + k
             = unat (total_connections_remaining b1)"
      by (intro exI [of _ b1] exI [of _ k] conjI) (fact b1(1), fact k(1), fact pool, fact pos, fact exact)
  qed
  have tick: "\<exists>k d. TimerCallback Settings env b = ((push_back_started ^^ k) (reaped b))\<lparr>done_event := d\<rparr>
         \<and> socket_pool (TimerCallback Settings env b) = socket_pool (reaped b) @ replicate k Pending
         \<and> (\<forall>j<k. total_connections_remaining ((push_back_started ^^ j) (reaped b)) > 0)
         \<and> unat (total_connections_remaining (TimerCallback Settings env b)) + k
             = unat (total_connections_remaining b)"
  proof (cases "(total_connections_remaining b = 0 \<and> pending_sockets b = 0 \<and> active_sockets b = 0)
                \<or> done_event b")
    case True
    then have "TimerCallback Settings env b = ((push_back_started ^^ 0) (reaped b))\<lparr>done_event := True\<rparr>"
      by (auto simp: TimerCallback_cases reaped_def)
    then show ?thesis
      by (intro exI [of _ 0] exI [of _ True]) (simp add: reaped_members)
  next
    case False
    then have nz: "\<not> (total_connections_remaining b = 0 \<and> pending_sockets b = 0 \<and> active_sockets b = 0)"
      and nd: "\<not> done_event b" by blast+
    have tc: "TimerCallback Settings env b = refill Settings env (reaped b)"
      by (simp only: TimerCallback_cases nz nd if_False)
    obtain k where k:
      "refill Settings env (reaped b) = (push_back_started ^^ k) (reaped b)"
      "\<forall>j<k. spec_create_condition Settings ((push_back_started ^^ j) (reaped b))
              \<and> make_shared env ((push_back_started ^^ j) (reaped b))"
      using refill_iterates [of Settings env "reaped b"] by blast
    from k(2) have pos: "\<forall>j<k. total_connections_remaining ((push_back_started ^^ j) (reaped b)) > 0"
      by (simp add: spec_create_condition_def)
    then have "unat (total_connections_remaining ((push_back_started ^^ k) (reaped b))) + k
        = unat (total_connections_remaining (reaped b))"
      by (rule created_total_exact)
    then have exact: "unat (total_connections_remaining (TimerCallback Settings env b)) + k
        = unat (total_connections_remaining b)"
      by (simp add: tc k(1) reaped_members)
    have pool: "socket_pool (TimerCallback Settings env b) = socket_pool (reaped b) @ replicate k Pending"
      by (simp add: tc k(1) created_members)
    have "done_event ((push_back_started ^^ k) (reaped b)) = done_event b"
      by (simp add: created_members reaped_members)
    then have "((push_back_started ^^ k) (reaped b))\<lparr>done_event := done_event b\<rparr>
        = (push_back_started ^^ k) (reaped b)"
      by (cases "(push_back_started ^^ k) (reaped b)") simp
    then have "TimerCallback Settings env b
        = ((push_back_started ^^ k) (reaped b))\<lparr>done_event := done_event b\<rparr>"
      by (simp only: tc k(1))
    with pool pos exact show ?thesis
      by (intro exI [of _ k] exI [of _ "done_event b"] conjI) assumption+
  qed
  have one: "total_connections_remaining (push_back_started b) = total_connections_remaining b - 1"
    by (simp add: push_back_started_def)
  have one_exact: "total_connections_remaining b > 0 \<longrightarrow>
        unat (total_connections_remaining (push_back_started b)) + 1
          = unat (total_connections_remaining b)"
    using created_total_exact [of "Suc 0" b] by simp
  show ?thesis
    by (intro conjI) (fact ctor, fact tick, fact one, fact one_exact)
qed

theorem TimerCallback_done_or_refill_witness:
  "TimerCallback (example_settings False 3 4 2) example_environment
      (example_broker [Active, Closed, Active] 10 4 0 2)
     = example_broker [Active, Active, Pending, Pending] 8 4 2 2
   \<and> \<not> spec_create_condition (example_settings False 3 4 2)
         (example_broker [Active, Active, Pending, Pending] 8 4 2 2)
   \<and> TimerCallback (example_settings False 3 4 2) example_environment
      (example_broker [Closed] 0 4 0 0)
     = (example_broker [] 0 4 0 0)\<lparr>done_event := True\<rparr>
   \<and> TimerCallback (example_settings False 3 4 2) example_environment
      ((example_broker [Closed, Active] 5 4 0 1)\<lparr>done_event := True\<rparr>)
     = (example_broker [Active] 5 4 0 1)\<lparr>done_event := True\<rparr>"
proof -
  have tick: "TimerCallback (example_settings False 3 4 2) example_environment
      (example_broker [Active, Closed, Active] 10 4 0 2)
     = example_broker [Active, Active, Pending, Pending] 8 4 2 2"
    by (simp add: broker_example_defs)
  have full: "\<not> spec_create_condition (example_settings False 3 4 2)
         (example_broker [Active, Active, Pending, Pending] 8 4 2 2)"
    using TimerCallback_done_or_refill [of "example_settings False 3 4 2" example_environment
      "example_broker [Active, Closed, Active] 10 4 0 2"]
    unfolding tick by (auto simp: example_broker_def example_environment_def)
  have signalled: "TimerCallback (example_settings False 3 4 2) example_environment
      (example_broker [Closed] 0 4 0 0)
     = (example_broker [] 0 4 0 0)\<lparr>done_event := True\<rparr>"
    using TimerCallback_done_or_refill [of "example_settings False 3 4 2" example_environment
       "example_broker [Closed] 0 4 0 0"]
    by (simp add: example_broker_def reaped_def is_closed_def)
  have shut: "TimerCallback (example_settings False 3 4 2) example_environment
      ((example_broker [Closed, Active] 5 4 0 1)\<lparr>done_event := True\<rparr>)
     = (example_broker [Active] 5 4 0 1)\<lparr>done_event := True\<rparr>"
    using TimerCallback_done_or_refill [of "example_settings False 3 4 2" example_environment
       "(example_broker [Closed, Active] 5 4 0 1)\<lparr>done_event := True\<rparr>"]
    by (simp add: example_broker_def reaped_def is_closed_def)
  show ?thesis by (intro conjI) (fact tick, fact full, fact signalled, fact shut)
qed

theorem total_connections_remaining_counts_constructions_witness:
  "new_ctsSocketBroker (example_settings False 3 4 2) example_environment
       [TimerTick example_environment]
     = Inr (example_broker [Pending, Pending, Pending, Pending] 8 4 4 0)
   \<and> run (example_settings False 3 4 2) (ctsSocketBroker_limits (example_settings False 3 4 2))
       [TimerTick example_environment]
     = Inr (example_broker [Pending, Pending] 10 4 2 0)
   \<and> unat (total_connections_remaining
        (example_broker [Pending, Pending, Pending, Pending] 8 4 4 0)) + 2
       = unat (total_connections_remaining (example_broker [Pending, Pending] 10 4 2 0))
   \<and> unat (total_connections_remaining (push_back_started (example_broker [] 1 4 0 0))) + 1 = 1"
proof -
  let ?S = "example_settings False 3 4 2"
  let ?b1 = "example_broker [Pending, Pending] 10 4 2 0"
  let ?b' = "example_broker [Pending, Pending, Pending, Pending] 8 4 4 0"
  have ctor: "new_ctsSocketBroker ?S example_environment [TimerTick example_environment] = Inr ?b'"
    by (simp add: broker_example_defs)
  have early: "run ?S (ctsSocketBroker_limits ?S) [TimerTick example_environment] = Inr ?b1"
    by (simp add: broker_example_defs)
  have "\<exists>b1 k. run ?S (ctsSocketBroker_limits ?S) [TimerTick example_environment] = Inr b1
     \<and> socket_pool ?b' = socket_pool b1 @ replicate k Pending
     \<and> unat (total_connections_remaining ?b') + k = unat (total_connections_remaining b1)"
    using total_connections_remaining_counts_constructions
      [of ?S example_environment "[TimerTick example_environment]" ?b' "example_broker [] 1 4 0 0"]
      ctor
    by blast
  then obtain b1 k where k: "run ?S (ctsSocketBroker_limits ?S) [TimerTick example_environment] = Inr b1"
     "socket_pool ?b' = socket_pool b1 @ replicate k Pending"
     "unat (total_connections_remaining ?b') + k = unat (total_connections_remaining b1)"
    by blast
  from k(1) early have b1: "b1 = ?b1" by simp
  from k(2) have "length (socket_pool ?b') = length (socket_pool b1) + k"
    by simp
  then have "k = 2" by (simp add: b1 example_broker_def)
  with k(3) have exact: "unat (total_connections_remaining ?b') + 2
       = unat (total_connections_remaining ?b1)"
    by (simp only: b1)
  have one: "unat (total_connections_remaining (push_back_started (example_broker [] 1 4 0 0))) + 1 = 1"
    using total_connections_remaining_counts_constructions
      [of ?S example_environment "[TimerTick example_environment]" ?b' "example_broker [] 1 4 0 0"]
    by (simp add: example_broker_def)
  show ?thesis by (intro conjI) (fact ctor, fact early, fact exact, fact one)
qed

section \<open>The broker: the limits of the client role\<close>

lemma word_plus_one_le:
  assumes "(p :: 32 word) < t"
  shows "p + 1 \<le> t"
  using assms by (rule inc_le)

lemma ctor_fill_throttle:
  "\<not> AcceptFunction Settings \<Longrightarrow> pending_sockets b < ConnectionThrottleLimit Settings \<Longrightarrow>
   ctor_fill Settings env b = Inr b' \<Longrightarrow>
   pending_sockets b' \<le> ConnectionThrottleLimit Settings"
proof (induction Settings env b rule: ctor_fill.induct)
  case (1 Settings env b)
  let ?go = "total_connections_remaining b > 0 \<and> pending_sockets b < pending_limit b"
  show ?case
  proof (cases ?go)
    case False
    with "1.prems"(3) have "b' = b" by (simp add: ctor_fill_unfold [of Settings env b])
    with "1.prems"(2) show ?thesis by simp
  next
    case go: True
    with "1.prems"(3) have ms: "make_shared env b"
      by (simp add: ctor_fill_unfold [of Settings env b] split: if_splits)
    have next_le: "pending_sockets (push_back_started b) \<le> ConnectionThrottleLimit Settings"
      using "1.prems"(2) by (simp add: push_back_started_def word_plus_one_le)
    show ?thesis
    proof (cases "ConnectionThrottleLimit Settings = pending_sockets (push_back_started b)")
      case True
      with go ms "1.prems"(1,3) have "b' = push_back_started b"
        by (simp add: ctor_fill_unfold [of Settings env b])
      with next_le show ?thesis by simp
    next
      case False
      with go ms "1.prems"(3) have rec: "ctor_fill Settings env (push_back_started b) = Inr b'"
        by (simp add: ctor_fill_unfold [of Settings env b])
      from False next_le have "pending_sockets (push_back_started b) < ConnectionThrottleLimit Settings"
        by simp
      with go ms False "1.prems"(1) rec show ?thesis
        by (intro "1.IH") auto
    qed
  qed
qed

text \<open>The constructor leaves no active record and at most \<open>pending_limit\<close> pending ones.\<close>

lemma new_ctsSocketBroker_counters:
  assumes "new_ctsSocketBroker Settings env [] = Inr b"
  shows "active_sockets b = 0"
    and "unat (pending_sockets b) \<le> unat (pending_limit (ctsSocketBroker_limits Settings))"
    and "pending_limit b = pending_limit (ctsSocketBroker_limits Settings)"
    and "unat (pending_sockets b) = length (socket_pool b)"
    and "socket_pool b = replicate (length (socket_pool b)) Pending"
proof -
  let ?b0 = "ctsSocketBroker_limits Settings"
  from assms have "ctor_fill Settings env ?b0 = Inr b" by (rule new_ctsSocketBroker_first)
  then obtain k where k: "b = (push_back_started ^^ k) ?b0"
    "\<forall>j<k. total_connections_remaining ((push_back_started ^^ j) ?b0) > 0
            \<and> pending_sockets ((push_back_started ^^ j) ?b0) < pending_limit ((push_back_started ^^ j) ?b0)
            \<and> make_shared env ((push_back_started ^^ j) ?b0)"
    using ctor_fill_iterates by blast
  from k(2) have below: "\<forall>j<k. pending_sockets ((push_back_started ^^ j) ?b0)
      < pending_limit ((push_back_started ^^ j) ?b0)" by blast
  then have p: "unat (pending_sockets b) = k"
    using created_pending_exact [of k ?b0] by (simp add: k(1) limits_others)
  show "active_sockets b = 0" by (simp add: k(1) created_members limits_others)
  show "pending_limit b = pending_limit ?b0" by (simp add: k(1) created_members)
  show "unat (pending_sockets b) = length (socket_pool b)"
    by (simp add: p) (simp add: k(1) created_members limits_others)
  show "socket_pool b = replicate (length (socket_pool b)) Pending"
    by (simp add: k(1) created_members limits_others)
  show "unat (pending_sockets b) \<le> unat (pending_limit ?b0)"
  proof (cases k)
    case 0
    with p show ?thesis by simp
  next
    case (Suc k')
    with below have "pending_sockets ((push_back_started ^^ k') ?b0) < pending_limit ((push_back_started ^^ k') ?b0)"
      by simp
    moreover have "unat (pending_sockets ((push_back_started ^^ k') ?b0)) = k'"
      using below Suc created_pending_exact [of k' ?b0] by (simp add: limits_others)
    ultimately have "k' < unat (pending_limit ?b0)"
      by (simp add: word_less_nat_alt created_members)
    with p Suc show ?thesis by simp
  qed
qed

lemma client_sum_exact:
  assumes "unat (p :: 32 word) + unat (a :: 32 word) \<le> unat (c :: 32 word)"
  shows "unat (p + a) = unat p + unat a"
proof -
  have "unat p + unat a < 2 ^ LENGTH(32)" using assms unat_32_bound [of c] by simp
  then show ?thesis by (simp only: unat_add_lem [THEN iffD1])
qed

lemma push_back_started_client:
  assumes "\<not> AcceptFunction Settings" "client_limits_hold Settings t b" "spec_create_condition Settings b"
    and above: "ConnectionThrottleLimit Settings \<le> t"
  shows "client_limits_hold Settings t (push_back_started b)"
proof -
  from assms(2) have sum: "unat (pending_sockets b) + unat (active_sockets b) \<le> unat (ConnectionLimit Settings)"
    by (simp add: client_limits_hold_def)
  from assms(1,3) have c: "pending_sockets b < pending_limit b"
    "pending_sockets b + active_sockets b < ConnectionLimit Settings"
    "pending_sockets b < ConnectionThrottleLimit Settings"
    by (simp_all add: spec_create_condition_def)
  from c(2) sum have "unat (pending_sockets b) + unat (active_sockets b) < unat (ConnectionLimit Settings)"
    by (simp add: word_less_nat_alt client_sum_exact)
  moreover have "unat (pending_sockets b + 1) = unat (pending_sockets b) + 1"
    using c(1) by (rule unat_plus_one_below)
  moreover have "pending_sockets b + 1 \<le> t"
    using c(3) above by (intro word_plus_one_le) simp
  ultimately show ?thesis by (simp add: client_limits_hold_def push_back_started_def)
qed

lemma created_client:
  assumes "\<not> AcceptFunction Settings" "client_limits_hold Settings t b"
    "\<forall>j<k. spec_create_condition Settings ((push_back_started ^^ j) b)"
    "ConnectionThrottleLimit Settings \<le> t"
  shows "client_limits_hold Settings t ((push_back_started ^^ k) b)"
  using assms(3)
proof (induction k)
  case 0
  with assms(2) show ?case by simp
next
  case (Suc k)
  then have "client_limits_hold Settings t ((push_back_started ^^ k) b)" by simp
  moreover from Suc.prems have "spec_create_condition Settings ((push_back_started ^^ k) b)" by simp
  ultimately show ?case using assms(1,4) by (simp add: push_back_started_client)
qed

lemma refill_client:
  assumes "\<not> AcceptFunction Settings" "client_limits_hold Settings t b"
    "ConnectionThrottleLimit Settings \<le> t"
  shows "client_limits_hold Settings t (refill Settings env b)"
proof -
  obtain k where k: "refill Settings env b = (push_back_started ^^ k) b"
    "\<forall>j<k. spec_create_condition Settings ((push_back_started ^^ j) b)
            \<and> make_shared env ((push_back_started ^^ j) b)"
    using refill_iterates [of Settings env b] by blast
  from k(2) have "\<forall>j<k. spec_create_condition Settings ((push_back_started ^^ j) b)" by blast
  with assms(1,2) show ?thesis unfolding k(1) using assms(3) by (rule created_client)
qed

lemma TimerCallback_client:
  assumes "\<not> AcceptFunction Settings" "client_limits_hold Settings t b"
    "ConnectionThrottleLimit Settings \<le> t"
  shows "client_limits_hold Settings t (TimerCallback Settings env b)"
proof -
  have r: "client_limits_hold Settings t (reaped b)"
    using assms(2) by (simp add: client_limits_hold_def reaped_members)
  then have "client_limits_hold Settings t (refill Settings env (reaped b))"
    using assms(1,3) by (simp add: refill_client)
  with r show ?thesis
    by (simp add: TimerCallback_cases client_limits_hold_def)
qed

lemma initiating_io_client:
  assumes "client_limits_hold Settings t b" "initiating_io b = Inr b'"
  shows "client_limits_hold Settings t b'"
proof -
  from assms(2) have nz: "pending_sockets b \<noteq> 0"
    and b': "b' = b\<lparr>pending_sockets := pending_sockets b - 1, active_sockets := active_sockets b + 1\<rparr>"
    by (auto simp: initiating_io_def split: if_splits)
  from assms(1) have sum: "unat (pending_sockets b) + unat (active_sockets b) \<le> unat (ConnectionLimit Settings)"
    and thr: "pending_sockets b \<le> t"
    by (simp_all add: client_limits_hold_def)
  have dec: "unat (pending_sockets b - 1) = unat (pending_sockets b) - 1"
    using nz by (rule unat_minus_one)
  have pos: "0 < unat (pending_sockets b)" using nz by (simp add: unat_gt_0)
  have "unat (active_sockets b) + unat (1 :: 32 word) < 2 ^ LENGTH(32)"
    using sum pos unat_32_bound [of "ConnectionLimit Settings"] by simp
  then have inc: "unat (active_sockets b + 1) = unat (active_sockets b) + 1"
    by (simp only: unat_add_lem [THEN iffD1] unat_1)
  have "pending_sockets b - 1 \<le> t"
    using thr dec by (simp add: word_le_nat_alt)
  with sum pos dec inc show ?thesis by (simp add: client_limits_hold_def b')
qed

lemma closing_client:
  assumes "client_limits_hold Settings t b" "closing b was_active = Inr b'"
  shows "client_limits_hold Settings t b'"
proof (cases was_active)
  case True
  with assms(2) have nz: "active_sockets b \<noteq> 0"
    and b': "b' = b\<lparr>active_sockets := active_sockets b - 1\<rparr>"
    by (auto simp: closing_def split: if_splits)
  have "unat (active_sockets b - 1) = unat (active_sockets b) - 1" using nz by (rule unat_minus_one)
  with assms(1) show ?thesis by (auto simp: client_limits_hold_def b')
next
  case False
  with assms(2) have nz: "pending_sockets b \<noteq> 0"
    and b': "b' = b\<lparr>pending_sockets := pending_sockets b - 1\<rparr>"
    by (auto simp: closing_def split: if_splits)
  have "unat (pending_sockets b - 1) = unat (pending_sockets b) - 1" using nz by (rule unat_minus_one)
  with assms(1) show ?thesis by (auto simp: client_limits_hold_def b' word_le_nat_alt)
qed

lemma step_client:
  assumes "\<not> AcceptFunction Settings" "client_limits_hold Settings t b" "step Settings b e = Inr b'"
    and above: "ConnectionThrottleLimit Settings \<le> t"
  shows "client_limits_hold Settings t b'"
proof (cases e)
  case (TimerTick env)
  with assms show ?thesis by (auto simp: TimerCallback_client)
next
  case (InitiatingIo i)
  with assms(3) obtain b1 where b1: "initiating_io b = Inr b1" "b' = b1\<lparr>socket_pool := (socket_pool b1)[i := Active]\<rparr>"
    by (auto split: sum.splits)
  from assms(2) b1(1) have "client_limits_hold Settings t b1" by (rule initiating_io_client)
  then show ?thesis by (simp add: b1(2) client_limits_hold_def)
next
  case (Closing i was_active)
  with assms(3) obtain b1 where b1: "closing b was_active = Inr b1" "b' = b1\<lparr>socket_pool := (socket_pool b1)[i := Closed]\<rparr>"
    by (auto split: sum.splits)
  from assms(2) b1(1) have "client_limits_hold Settings t b1" by (rule closing_client)
  then show ?thesis by (simp add: b1(2) client_limits_hold_def)
qed

lemma run_client:
  "\<not> AcceptFunction Settings \<Longrightarrow> client_limits_hold Settings t b \<Longrightarrow>
   run Settings b evs = Inr b' \<Longrightarrow> ConnectionThrottleLimit Settings \<le> t \<Longrightarrow>
   client_limits_hold Settings t b'"
proof (induction evs arbitrary: b)
  case Nil
  then show ?case by simp
next
  case (Cons e evs)
  from Cons.prems(3) obtain b1 where b1: "step Settings b e = Inr b1" "run Settings b1 evs = Inr b'"
    by (auto split: sum.splits)
  from Cons.prems(1,2) b1(1) Cons.prems(4) have "client_limits_hold Settings t b1" by (rule step_client)
  with Cons.prems(1,4) b1(2) show ?case by (intro Cons.IH)
qed

lemma new_ctsSocketBroker_client:
  assumes "\<not> AcceptFunction Settings" "ConnectionThrottleLimit Settings \<noteq> 0"
    "new_ctsSocketBroker Settings env [] = Inr b"
  shows "client_limits_hold Settings (ConnectionThrottleLimit Settings) b"
proof -
  let ?b0 = "ctsSocketBroker_limits Settings"
  have "unat (pending_limit ?b0) \<le> unat (ConnectionLimit Settings)"
    using assms(1) by (simp add: limits_pending_limit)
  with new_ctsSocketBroker_counters(1,2) [OF assms(3)]
  have sum: "unat (pending_sockets b) + unat (active_sockets b) \<le> unat (ConnectionLimit Settings)"
    by simp
  have "pending_sockets ?b0 < ConnectionThrottleLimit Settings"
    using assms(2) by (simp add: limits_others word_gt_0)
  with assms(1) new_ctsSocketBroker_first [OF assms(3)]
  have "pending_sockets b \<le> ConnectionThrottleLimit Settings"
    by (intro ctor_fill_throttle [of Settings ?b0 env b]) auto
  with sum show ?thesis by (simp add: client_limits_hold_def)
qed


text \<open>
  \<^verbatim>\<open>ctsConfig\<close> never leaves a zero throttle limit: the default is 1000, and
  \<^verbatim>\<open>set_throttleConnections\<close>, the only function that writes it, stores
  \<^verbatim>\<open>MAXUINT32\<close> for an argument of zero.
\<close>

lemma set_throttleConnections_nonzero:
  assumes "ConnectionThrottleLimit Settings \<noteq> 0"
    "set_throttleConnections ext Settings args = Inr (Settings', args')"
  shows "ConnectionThrottleLimit Settings' \<noteq> 0"
  using assms
  by (auto simp: set_throttleConnections_def try_bind_def Let_def MAXUINT32_def
      split: sum.splits if_splits)

lemma InitOncectsConfigImpl_throttle:
  "ConnectionThrottleLimit (InitOncectsConfigImpl Settings) \<noteq> 0"
  by (simp add: InitOncectsConfigImpl_def DefaultConnectionThrottleLimit_def)

text \<open>
  The limits of the client role hold in the state that the calls before the loop of
  the constructor leave, and, when there is no such call, in every state the broker
  reaches from its construction by timer ticks and reports of \<^verbatim>\<open>initiating_io\<close> and
  \<^verbatim>\<open>closing\<close>, in any order and from any caller (the throttle limit not being zero,
  as above).
\<close>

lemma client_limits_before_constructor_loop:
  assumes "\<not> AcceptFunction Settings"
    and "run Settings (ctsSocketBroker_limits Settings) early = Inr b1"
  shows "unat (pending_sockets b1) + unat (active_sockets b1) \<le> unat (ConnectionLimit Settings)
    \<and> pending_sockets b1 \<le> ConnectionThrottleLimit Settings"
proof -
  have "client_limits_hold Settings (ConnectionThrottleLimit Settings) (ctsSocketBroker_limits Settings)"
    by (simp add: client_limits_hold_def limits_others)
  with assms(1) have "client_limits_hold Settings (ConnectionThrottleLimit Settings) b1"
    using assms(2) by (rule run_client) simp
  then show ?thesis by (simp add: client_limits_hold_def)
qed

lemma client_limits_constructor_first:
  assumes "\<not> AcceptFunction Settings"
    and "ConnectionThrottleLimit Settings \<noteq> 0"
    and "new_ctsSocketBroker Settings env [] = Inr b0"
    and "run Settings b0 evs = Inr b"
  shows "unat (pending_sockets b) + unat (active_sockets b) \<le> unat (ConnectionLimit Settings)
    \<and> pending_sockets b \<le> ConnectionThrottleLimit Settings"
proof -
  from assms(1-3) have "client_limits_hold Settings (ConnectionThrottleLimit Settings) b0"
    by (rule new_ctsSocketBroker_client)
  with assms(1) have "client_limits_hold Settings (ConnectionThrottleLimit Settings) b"
    using assms(4) by (rule run_client) simp
  then show ?thesis by (simp add: client_limits_hold_def)
qed

text \<open>
  Claim C1. The bounds of the client role, \<open>pending_sockets + active_sockets \<le>
  ConnectionLimit\<close> and \<open>pending_sockets \<le> ConnectionThrottleLimit\<close>, fail in states the
  broker reaches. The constructor arms the timer at line 72, with no delay, and takes
  the lock for its loop at line 79. The loop of the timer callback tests both bounds
  with \<^verbatim>\<open>>=\<close> before it creates a record (lines 222-226); the loop of the constructor
  tests neither before, and compares the throttle limit with \<^verbatim>\<open>==\<close> after the record is
  counted (line 92). When a tick has the lock first and fills the pool up to the
  throttle limit, two with these settings, the loop of the constructor goes on to
  \<open>pending_limit\<close>, four. When, with a throttle limit of 1000, the tick fills the pool
  up to the connection limit, four, and the four records report \<^verbatim>\<open>initiating_io\<close>
  before the constructor has the lock, as the calling protocol lets them, the
  constructor adds four pending records to the four active ones.
\<close>

theorem constructor_loop_after_first_tick:
  "new_ctsSocketBroker (example_settings False 3 4 2) example_environment
       [TimerTick example_environment]
     = Inr (example_broker [Pending, Pending, Pending, Pending] 8 4 4 0)
   \<and> \<not> pending_sockets (example_broker [Pending, Pending, Pending, Pending] 8 4 4 0)
         \<le> ConnectionThrottleLimit (example_settings False 3 4 2)
   \<and> follows_protocol (example_settings False 3 4 1000)
       (ctsSocketBroker_limits (example_settings False 3 4 1000))
       [TimerTick example_environment, InitiatingIo 0, InitiatingIo 1, InitiatingIo 2, InitiatingIo 3]
   \<and> new_ctsSocketBroker (example_settings False 3 4 1000) example_environment
       [TimerTick example_environment, InitiatingIo 0, InitiatingIo 1, InitiatingIo 2, InitiatingIo 3]
     = Inr (example_broker [Active, Active, Active, Active, Pending, Pending, Pending, Pending] 4 4 4 4)
   \<and> \<not> unat (pending_sockets
          (example_broker [Active, Active, Active, Active, Pending, Pending, Pending, Pending] 4 4 4 4))
        + unat (active_sockets
          (example_broker [Active, Active, Active, Active, Pending, Pending, Pending, Pending] 4 4 4 4))
        \<le> unat (ConnectionLimit (example_settings False 3 4 1000))"
  by (simp add: broker_example_defs initiating_io_def)

section \<open>The broker: the calling protocol\<close>

lemma active_below_head: "active_below n Settings b evs \<Longrightarrow> active_records b < n"
  by (cases evs) simp_all

text \<open>Counting the records of one kind when one record changes.\<close>

lemma count_update:
  assumes "i < length xs"
  shows "length (filter P (xs[i := y])) + (if P (xs ! i) then 1 else 0)
       = length (filter P xs) + (if P y then 1 else 0)"
proof -
  have whole: "take i xs @ xs ! i # drop (Suc i) xs = xs"
    using assms by (rule id_take_nth_drop [symmetric])
  have "length (filter P (take i xs @ xs ! i # drop (Suc i) xs))
      = length (filter P (take i xs)) + (if P (xs ! i) then 1 else 0) + length (filter P (drop (Suc i) xs))"
    by simp
  then have "length (filter P xs)
      = length (filter P (take i xs)) + (if P (xs ! i) then 1 else 0) + length (filter P (drop (Suc i) xs))"
    by (simp only: whole)
  moreover have "length (filter P (xs[i := y]))
      = length (filter P (take i xs)) + (if P y then 1 else 0) + length (filter P (drop (Suc i) xs))"
    using assms by (simp add: upd_conv_take_nth_drop)
  ultimately show ?thesis by simp
qed

lemma filter_not_closed:
  "s \<noteq> Closed \<Longrightarrow>
   filter (\<lambda>x. \<not> is_closed x \<and> x = s) xs = filter (\<lambda>x. x = s) xs"
  by (induction xs) (auto simp: is_closed_def)

lemma reaped_records:
  "pending_records (reaped b) = pending_records b"
  "active_records (reaped b) = active_records b"
  by (simp_all add: pending_records_def active_records_def reaped_def filter_not_closed)

lemma created_records:
  "pending_records ((push_back_started ^^ k) b) = pending_records b + k"
  "active_records ((push_back_started ^^ k) b) = active_records b"
  by (simp_all add: pending_records_def active_records_def created_members)

lemma refill_counters_match:
  assumes "counters_match b"
  shows "counters_match (refill Settings env b)"
proof -
  obtain k where k: "refill Settings env b = (push_back_started ^^ k) b"
    "\<forall>j<k. spec_create_condition Settings ((push_back_started ^^ j) b)
            \<and> make_shared env ((push_back_started ^^ j) b)"
    using refill_iterates [of Settings env b] by blast
  from k(2) have "\<forall>j<k. pending_sockets ((push_back_started ^^ j) b)
      < pending_limit ((push_back_started ^^ j) b)"
    by (simp add: spec_create_condition_def)
  then have "unat (pending_sockets ((push_back_started ^^ k) b)) = unat (pending_sockets b) + k"
    by (rule created_pending_exact)
  with assms show ?thesis
    by (simp add: counters_match_def k(1) created_records created_members)
qed

lemma TimerCallback_counters_match:
  assumes "counters_match b"
  shows "counters_match (TimerCallback Settings env b)"
proof -
  have r: "counters_match (reaped b)"
    using assms by (simp add: counters_match_def reaped_records reaped_members)
  then have "counters_match (refill Settings env (reaped b))" by (rule refill_counters_match)
  with r show ?thesis
    by (simp add: TimerCallback_cases counters_match_def pending_records_def active_records_def)
qed

text \<open>
  A permitted report finds its counter positive. \<open>room\<close> says that one more active
  record does not overflow \<open>active_sockets\<close>.
\<close>

lemma InitiatingIo_counters_match:
  assumes cm: "counters_match b"
    and perm: "permitted (socket_pool b) (InitiatingIo i)"
  shows "\<exists>b'. step Settings b (InitiatingIo i) = Inr b'
           \<and> active_records b' = active_records b + 1
           \<and> (active_records b + 1 < 2 ^ 32 \<longrightarrow> counters_match b')"
proof -
  let ?pool = "socket_pool b"
  from perm have i: "i < length ?pool" and st: "?pool ! i = Pending" by simp_all
  have pc: "length (filter (\<lambda>s. s = Pending) (?pool[i := Active])) + 1
      = length (filter (\<lambda>s. s = Pending) ?pool)"
    using count_update [OF i, of "\<lambda>s. s = Pending" Active] st by simp
  have ac: "length (filter (\<lambda>s. s = Active) (?pool[i := Active]))
      = length (filter (\<lambda>s. s = Active) ?pool) + 1"
    using count_update [OF i, of "\<lambda>s. s = Active" Active] st by simp
  from pc have "0 < pending_records b" unfolding pending_records_def by linarith
  with cm have nz: "pending_sockets b \<noteq> 0" by (auto simp: counters_match_def)
  have dec: "unat (pending_sockets b - 1) = unat (pending_sockets b) - 1"
    using nz by (rule unat_minus_one)
  let ?b' = "b\<lparr>pending_sockets := pending_sockets b - 1, active_sockets := active_sockets b + 1,
               socket_pool := ?pool[i := Active]\<rparr>"
  have s: "step Settings b (InitiatingIo i) = Inr ?b'"
    using nz by (simp add: initiating_io_def)
  have more: "active_records ?b' = active_records b + 1"
    using ac by (simp add: active_records_def)
  have "counters_match ?b'" if room: "active_records b + 1 < 2 ^ 32"
  proof -
    from cm room have "unat (active_sockets b) + unat (1 :: 32 word) < 2 ^ LENGTH(32)"
      by (simp add: counters_match_def)
    then have inc: "unat (active_sockets b + 1) = unat (active_sockets b) + 1"
      by (simp only: unat_add_lem [THEN iffD1] unat_1)
    show ?thesis
      using cm pc ac dec inc by (simp add: counters_match_def pending_records_def active_records_def)
  qed
  with s more show ?thesis by blast
qed

lemma Closing_counters_match:
  assumes cm: "counters_match b"
    and perm: "permitted (socket_pool b) (Closing i was_active)"
  shows "\<exists>b'. step Settings b (Closing i was_active) = Inr b' \<and> counters_match b'"
proof (cases was_active)
  case True
  let ?pool = "socket_pool b"
  from perm True have i: "i < length ?pool" and st: "?pool ! i = Active" by simp_all
  have pc: "length (filter (\<lambda>s. s = Pending) (?pool[i := Closed]))
      = length (filter (\<lambda>s. s = Pending) ?pool)"
    using count_update [OF i, of "\<lambda>s. s = Pending" Closed] st by simp
  have ac: "length (filter (\<lambda>s. s = Active) (?pool[i := Closed])) + 1
      = length (filter (\<lambda>s. s = Active) ?pool)"
    using count_update [OF i, of "\<lambda>s. s = Active" Closed] st by simp
  from ac have "0 < active_records b" unfolding active_records_def by linarith
  with cm have nz: "active_sockets b \<noteq> 0" by (auto simp: counters_match_def)
  have dec: "unat (active_sockets b - 1) = unat (active_sockets b) - 1"
    using nz by (rule unat_minus_one)
  have pos: "0 < unat (active_sockets b)" using nz by (simp add: unat_gt_0)
  let ?b' = "b\<lparr>active_sockets := active_sockets b - 1, socket_pool := ?pool[i := Closed]\<rparr>"
  have s: "step Settings b (Closing i was_active) = Inr ?b'"
    using nz True by (simp add: closing_def)
  have "counters_match ?b'"
    using cm pc ac dec by (simp add: counters_match_def pending_records_def active_records_def)
  moreover have "active_records ?b' \<le> active_records b"
    using ac by (simp add: active_records_def)
  ultimately show ?thesis using s by simp
next
  case False
  let ?pool = "socket_pool b"
  from perm False have i: "i < length ?pool" and st: "?pool ! i = Pending" by simp_all
  have pc: "length (filter (\<lambda>s. s = Pending) (?pool[i := Closed])) + 1
      = length (filter (\<lambda>s. s = Pending) ?pool)"
    using count_update [OF i, of "\<lambda>s. s = Pending" Closed] st by simp
  have ac: "length (filter (\<lambda>s. s = Active) (?pool[i := Closed]))
      = length (filter (\<lambda>s. s = Active) ?pool)"
    using count_update [OF i, of "\<lambda>s. s = Active" Closed] st by simp
  from pc have "0 < pending_records b" unfolding pending_records_def by linarith
  with cm have nz: "pending_sockets b \<noteq> 0" by (auto simp: counters_match_def)
  have dec: "unat (pending_sockets b - 1) = unat (pending_sockets b) - 1"
    using nz by (rule unat_minus_one)
  have pos: "0 < unat (pending_sockets b)" using nz by (simp add: unat_gt_0)
  have le: "pending_sockets b - 1 \<le> pending_sockets b"
    using dec by (simp add: word_le_nat_alt)
  let ?b' = "b\<lparr>pending_sockets := pending_sockets b - 1, socket_pool := ?pool[i := Closed]\<rparr>"
  have s: "step Settings b (Closing i was_active) = Inr ?b'"
    using nz False by (simp add: closing_def)
  have "counters_match ?b'"
    using cm pc ac dec by (simp add: counters_match_def pending_records_def active_records_def)
  moreover have "active_records ?b' \<le> active_records b"
    using ac by (simp add: active_records_def)
  ultimately show ?thesis using s by simp
qed

lemma step_protocol:
  assumes cm: "counters_match b"
    and perm: "permitted (socket_pool b) e"
    and fit: "\<forall>b'. step Settings b e = Inr b' \<longrightarrow> active_records b' < 2 ^ 32"
  shows "\<exists>b'. step Settings b e = Inr b' \<and> counters_match b'"
proof (cases e)
  case (TimerTick env)
  with cm show ?thesis by (simp add: TimerCallback_counters_match)
next
  case (InitiatingIo i)
  with cm perm obtain b' where b': "step Settings b e = Inr b'"
    "active_records b' = active_records b + 1"
    "active_records b + 1 < 2 ^ 32 \<longrightarrow> counters_match b'"
    using InitiatingIo_counters_match [of b i Settings] by blast
  from fit b'(1,2) have "active_records b + 1 < 2 ^ 32" by simp
  with b'(1,3) show ?thesis by blast
next
  case (Closing i was_active)
  with cm perm show ?thesis by (simp only: Closing_counters_match)
qed

lemma run_protocol:
  "counters_match b \<Longrightarrow> active_below (2 ^ 32) Settings b evs \<Longrightarrow>
   follows_protocol Settings b evs \<Longrightarrow>
   \<exists>b'. run Settings b evs = Inr b' \<and> counters_match b'"
proof (induction evs arbitrary: b)
  case Nil
  then show ?case by simp
next
  case (Cons e evs)
  from Cons.prems(3) have perm: "permitted (socket_pool b) e" by simp
  have fit: "\<forall>b'. step Settings b e = Inr b' \<longrightarrow> active_records b' < 2 ^ 32"
  proof (intro allI impI)
    fix b' assume "step Settings b e = Inr b'"
    with Cons.prems(2) have "active_below (2 ^ 32) Settings b' evs" by simp
    then show "active_records b' < 2 ^ 32" by (rule active_below_head)
  qed
  from Cons.prems(1) perm fit obtain b1 where b1: "step Settings b e = Inr b1" "counters_match b1"
    using step_protocol by blast
  from Cons.prems(2) b1(1) have below: "active_below (2 ^ 32) Settings b1 evs" by simp
  from Cons.prems(3) b1(1) have "follows_protocol Settings b1 evs" by simp
  with b1(2) below have "\<exists>b'. run Settings b1 evs = Inr b' \<and> counters_match b'"
    by (rule Cons.IH)
  with b1(1) show ?case by simp
qed

lemma limits_counters_match: "counters_match (ctsSocketBroker_limits Settings)"
  by (simp add: counters_match_def pending_records_def active_records_def limits_others)

lemma ctor_fill_counters_match:
  assumes "counters_match b" "ctor_fill Settings env b = Inr b'"
  shows "counters_match b'"
proof -
  from assms(2) obtain k where k: "b' = (push_back_started ^^ k) b"
    "\<forall>j<k. total_connections_remaining ((push_back_started ^^ j) b) > 0
            \<and> pending_sockets ((push_back_started ^^ j) b) < pending_limit ((push_back_started ^^ j) b)
            \<and> make_shared env ((push_back_started ^^ j) b)"
    using ctor_fill_iterates by blast
  from k(2) have "\<forall>j<k. pending_sockets ((push_back_started ^^ j) b)
      < pending_limit ((push_back_started ^^ j) b)"
    by blast
  then have "unat (pending_sockets ((push_back_started ^^ k) b)) = unat (pending_sockets b) + k"
    by (rule created_pending_exact)
  with assms(1) show ?thesis
    by (simp add: counters_match_def k(1) created_records created_members)
qed

text \<open>
  Claim C5. When every record follows the calling protocol, no call of
  \<^verbatim>\<open>initiating_io\<close> or \<^verbatim>\<open>closing\<close> meets a fatal condition, neither among the calls that
  come before the loop of the constructor nor in any run from the constructed broker:
  \<^verbatim>\<open>initiating_io\<close> and \<^verbatim>\<open>closing(false)\<close> find \<open>pending_sockets\<close> positive and
  \<^verbatim>\<open>closing(true)\<close> finds \<open>active_sockets\<close> positive. The runs are those of a process,
  which holds fewer than \<open>2^32\<close> active records at a time: \<open>active_sockets\<close> is a
  32-bit counter.
\<close>

theorem protocol_never_fatal:
  assumes "follows_protocol Settings (ctsSocketBroker_limits Settings) early"
    and "active_below (2 ^ 32) Settings (ctsSocketBroker_limits Settings) early"
  shows "(\<forall>f. new_ctsSocketBroker Settings env early \<noteq> Inl (FailedFast f))
     \<and> (\<forall>b0 evs. new_ctsSocketBroker Settings env early = Inr b0
            \<and> follows_protocol Settings b0 evs \<and> active_below (2 ^ 32) Settings b0 evs
          \<longrightarrow> (\<exists>b. run Settings b0 evs = Inr b))"
proof -
  obtain b1 where b1: "run Settings (ctsSocketBroker_limits Settings) early = Inr b1"
    "counters_match b1"
    using run_protocol [OF limits_counters_match assms(2,1)] by blast
  have never: "\<forall>f. new_ctsSocketBroker Settings env early \<noteq> Inl (FailedFast f)"
    using b1(1)
    by (auto simp: new_ctsSocketBroker_def split: sum.splits dest: ctor_init_Inr)
  have later: "\<forall>b0 evs. new_ctsSocketBroker Settings env early = Inr b0
            \<and> follows_protocol Settings b0 evs \<and> active_below (2 ^ 32) Settings b0 evs
          \<longrightarrow> (\<exists>b. run Settings b0 evs = Inr b)"
  proof (intro allI impI)
    fix b0 evs
    assume a: "new_ctsSocketBroker Settings env early = Inr b0
            \<and> follows_protocol Settings b0 evs \<and> active_below (2 ^ 32) Settings b0 evs"
    then obtain b1' where "run Settings (ctsSocketBroker_limits Settings) early = Inr b1'"
      "ctor_fill Settings env b1' = Inr b0"
      using new_ctsSocketBroker_Inr by blast
    with b1(1) have "ctor_fill Settings env b1 = Inr b0" by simp
    with b1(2) have "counters_match b0" by (rule ctor_fill_counters_match)
    with a have "\<exists>b. run Settings b0 evs = Inr b \<and> counters_match b"
      by (intro run_protocol) simp_all
    then show "\<exists>b. run Settings b0 evs = Inr b" by blast
  qed
  from never later show ?thesis by (rule conjI)
qed

theorem protocol_never_fatal_witness:
  "follows_protocol (example_settings False 3 4 2)
       (ctsSocketBroker_limits (example_settings False 3 4 2))
       [TimerTick example_environment, InitiatingIo 0]
   \<and> active_below (2 ^ 32) (example_settings False 3 4 2)
       (ctsSocketBroker_limits (example_settings False 3 4 2))
       [TimerTick example_environment, InitiatingIo 0]
   \<and> new_ctsSocketBroker (example_settings False 3 4 2) example_environment
       [TimerTick example_environment, InitiatingIo 0]
     = Inr (example_broker [Active, Pending, Pending] 9 4 2 1)
   \<and> follows_protocol (example_settings False 3 4 2)
       (example_broker [Active, Pending, Pending] 9 4 2 1)
       [Closing 0 True, TimerTick example_environment, InitiatingIo 1, Closing 0 False]
   \<and> active_below (2 ^ 32) (example_settings False 3 4 2)
       (example_broker [Active, Pending, Pending] 9 4 2 1)
       [Closing 0 True, TimerTick example_environment, InitiatingIo 1, Closing 0 False]
   \<and> (\<exists>b. run (example_settings False 3 4 2)
       (example_broker [Active, Pending, Pending] 9 4 2 1)
       [Closing 0 True, TimerTick example_environment, InitiatingIo 1, Closing 0 False] = Inr b)"
proof -
  let ?S = "example_settings False 3 4 2"
  let ?early = "[TimerTick example_environment, InitiatingIo 0]"
  let ?b0 = "example_broker [Active, Pending, Pending] 9 4 2 1"
  let ?evs = "[Closing 0 True, TimerTick example_environment, InitiatingIo 1, Closing 0 False]"
  have e1: "follows_protocol ?S (ctsSocketBroker_limits ?S) ?early"
    by (simp add: broker_example_defs initiating_io_def closing_def)
  have e2: "active_below (2 ^ 32) ?S (ctsSocketBroker_limits ?S) ?early"
    by (simp add: broker_example_defs initiating_io_def closing_def active_records_def)
  have ctor: "new_ctsSocketBroker ?S example_environment ?early = Inr ?b0"
    by (simp add: broker_example_defs initiating_io_def closing_def)
  have l1: "follows_protocol ?S ?b0 ?evs"
    by (simp add: broker_example_defs initiating_io_def closing_def)
  have l2: "active_below (2 ^ 32) ?S ?b0 ?evs"
    by (simp add: broker_example_defs initiating_io_def closing_def active_records_def)
  from protocol_never_fatal [OF e1 e2, of example_environment]
  have "new_ctsSocketBroker ?S example_environment ?early = Inr ?b0
            \<and> follows_protocol ?S ?b0 ?evs \<and> active_below (2 ^ 32) ?S ?b0 ?evs
          \<longrightarrow> (\<exists>b. run ?S ?b0 ?evs = Inr b)"
    by blast
  with ctor l1 l2 have "\<exists>b. run ?S ?b0 ?evs = Inr b" by blast
  with e1 e2 ctor l1 l2 show ?thesis by (intro conjI)
qed

section \<open>ctsConfig: the port and the time limit\<close>

lemma set_port_nonzero:
  assumes "Port Settings \<noteq> 0" "set_port ext Settings args = Inr (Settings', args')"
  shows "Port Settings' \<noteq> 0"
  using assms
  by (auto simp: set_port_def try_bind_def Let_def split: sum.splits if_splits)

lemma InitOncectsConfigImpl_port: "Port (InitOncectsConfigImpl Settings) = 4444"
  by (simp add: InitOncectsConfigImpl_def DefaultPort_def)

text \<open>
  When the search finds an argument, the second call of \<^verbatim>\<open>ParseArgument\<close> on it
  returns its value.
\<close>

lemma find_if_found:
  "find_if p xs = Inr i \<Longrightarrow> i < length xs \<Longrightarrow> p (xs ! i) = Inr True"
proof (induction xs arbitrary: i)
  case Nil
  then show ?case by simp
next
  case (Cons x xs)
  show ?case
  proof (cases "p x")
    case (Inl e)
    with Cons.prems show ?thesis by simp
  next
    case (Inr found)
    show ?thesis
    proof (cases found)
      case True
      with Inr Cons.prems show ?thesis by simp
    next
      case False
      with Inr Cons.prems obtain j where j: "find_if p xs = Inr j" "i = Suc j"
        by (auto split: sum.splits)
      with Cons.prems have "j < length xs" by simp
      with j(1) have "p (xs ! j) = Inr True" by (rule Cons.IH)
      with j(2) show ?thesis by simp
    qed
  qed
qed

lemma find_parameter_value:
  assumes "find_parameter ext name args = Inr i" "i < length args"
  shows "\<exists>v. parameter_value ext name (args ! i) = Inr v"
proof -
  from assms have "try_bind (ParseArgument (iordinal_equals ext) (args ! i) name)
          (\<lambda>(value, _). Inr (value \<noteq> None)) = Inr True"
    unfolding find_parameter_def by (rule find_if_found)
  then show ?thesis
    by (auto simp: parameter_value_def try_bind_def split: sum.splits)
qed

text \<open>
  Claim C10. With a nonzero port, \<^verbatim>\<open>set_timelimit\<close> stores whatever value
  \<^verbatim>\<open>as_integral\<close> reads from the argument found, zero included, and does not throw:
  its guard tests the port. The port is nonzero when \<^verbatim>\<open>set_timelimit\<close> runs: it is
  4444 by default and \<^verbatim>\<open>set_port\<close> throws rather than leave zero.
\<close>

theorem set_timelimit_stores_any_value:
  "(Port Settings \<noteq> 0
      \<and> find_parameter ext (wide ''-timelimit'') args = Inr i \<and> i < length args
      \<and> parameter_value ext (wide ''-timelimit'') (args ! i) = Inr v
      \<and> as_integral_ulong ext v = Inr t \<longrightarrow>
    set_timelimit ext Settings args = Inr (Settings\<lparr>TimeLimit := t\<rparr>, erase args i))
   \<and> Port (InitOncectsConfigImpl Settings) \<noteq> 0
   \<and> (Port Settings \<noteq> 0 \<and> set_port ext Settings args = Inr (Settings', args') \<longrightarrow>
        Port Settings' \<noteq> 0 \<and> TimeLimit Settings' = TimeLimit Settings)
   \<and> (set_timelimit ext Settings args = Inr (Settings', args') \<longrightarrow> Port Settings' = Port Settings)"
proof -
  have stored: "Port Settings \<noteq> 0
      \<and> find_parameter ext (wide ''-timelimit'') args = Inr i \<and> i < length args
      \<and> parameter_value ext (wide ''-timelimit'') (args ! i) = Inr v
      \<and> as_integral_ulong ext v = Inr t \<longrightarrow>
    set_timelimit ext Settings args = Inr (Settings\<lparr>TimeLimit := t\<rparr>, erase args i)"
    by (simp add: set_timelimit_def try_bind_def Let_def)
  have default: "Port (InitOncectsConfigImpl Settings) \<noteq> 0"
    by (simp add: InitOncectsConfigImpl_port)
  have kept: "Port Settings \<noteq> 0 \<and> set_port ext Settings args = Inr (Settings', args') \<longrightarrow>
        Port Settings' \<noteq> 0 \<and> TimeLimit Settings' = TimeLimit Settings"
    by (auto simp: set_port_def try_bind_def Let_def split: sum.splits if_splits)
  have port_kept: "set_timelimit ext Settings args = Inr (Settings', args') \<longrightarrow>
        Port Settings' = Port Settings"
    by (auto simp: set_timelimit_def try_bind_def Let_def split: sum.splits if_splits)
  show ?thesis by (intro conjI) (fact stored, fact default, fact kept, fact port_kept)
qed

theorem set_timelimit_stores_any_value_witness:
  "Port (InitOncectsConfigImpl (example_settings False 3 4 2)) \<noteq> 0
   \<and> find_parameter example_externals (wide ''-timelimit'') [wide ''-Port:80'' @ [0], wide ''-TimeLimit:0'' @ [0]] = Inr 1
   \<and> parameter_value example_externals (wide ''-timelimit'') (wide ''-TimeLimit:0'' @ [0]) = Inr (wide ''0'')
   \<and> as_integral_ulong example_externals (wide ''0'') = Inr 0
   \<and> set_timelimit example_externals (InitOncectsConfigImpl (example_settings False 3 4 2))
        [wide ''-Port:80'' @ [0], wide ''-TimeLimit:0'' @ [0]]
      = Inr (InitOncectsConfigImpl (example_settings False 3 4 2)\<lparr>TimeLimit := 0\<rparr>, [wide ''-Port:80'' @ [0]])
   \<and> set_port example_externals (InitOncectsConfigImpl (example_settings False 3 4 2))
        [wide ''-Port:80'' @ [0], wide ''-TimeLimit:0'' @ [0]]
      = Inr (InitOncectsConfigImpl (example_settings False 3 4 2)\<lparr>Port := 80\<rparr>, [wide ''-TimeLimit:0'' @ [0]])"
proof -
  let ?S = "InitOncectsConfigImpl (example_settings False 3 4 2)"
  let ?args = "[wide ''-Port:80'' @ [0], wide ''-TimeLimit:0'' @ [0]]"
  have p: "Port ?S \<noteq> 0" by (simp add: InitOncectsConfigImpl_port)
  have f: "find_parameter example_externals (wide ''-timelimit'') ?args = Inr 1"
    by (simp add: example_defs)
  have v: "parameter_value example_externals (wide ''-timelimit'') (wide ''-TimeLimit:0'' @ [0]) = Inr (wide ''0'')"
    by (simp add: example_defs)
  have t: "as_integral_ulong example_externals (wide ''0'') = Inr 0"
    by (simp add: example_defs)
  have "set_timelimit example_externals ?S ?args = Inr (?S\<lparr>TimeLimit := 0\<rparr>, erase ?args 1)"
  proof (rule set_timelimit_stores_any_value [THEN conjunct1, THEN mp], intro conjI)
    show "Port ?S \<noteq> 0" by (fact p)
    show "find_parameter example_externals (wide ''-timelimit'') ?args = Inr 1" by (fact f)
    show "1 < length ?args" by simp
    show "parameter_value example_externals (wide ''-timelimit'') (?args ! 1) = Inr (wide ''0'')"
      using v by simp
    show "as_integral_ulong example_externals (wide ''0'') = Inr 0" by (fact t)
  qed
  then have s: "set_timelimit example_externals ?S ?args = Inr (?S\<lparr>TimeLimit := 0\<rparr>, [wide ''-Port:80'' @ [0]])"
    by (simp add: erase_def)
  have sp: "set_port example_externals ?S ?args = Inr (?S\<lparr>Port := 80\<rparr>, [wide ''-TimeLimit:0'' @ [0]])"
    by (simp add: set_port_def example_defs)
  show ?thesis by (intro conjI) (fact p, fact f, fact v, fact t, fact s, fact sp)
qed

section \<open>ctsConfig: verification mode and posted receives\<close>

text \<open>What each of the two functions writes, by cases of its search.\<close>

lemma set_prepostrecvs_cases:
  "set_prepostrecvs ext Settings args =
     (case find_parameter ext (wide ''-PrePostRecvs'') args of
        Inl e \<Rightarrow> Inl e
      | Inr i \<Rightarrow>
          if i = length args then Inr (Settings\<lparr>PrePostRecvs := 1\<rparr>, args)
          else case parameter_value ext (wide ''-PrePostRecvs'') (args ! i) of
                 Inl e \<Rightarrow> Inl e
               | Inr v \<Rightarrow>
                   (case as_integral_ulong ext v of
                      Inl e \<Rightarrow> Inl e
                    | Inr n \<Rightarrow>
                        if n = 0 then Inl (invalid_argument (wide ''-PrePostRecvs''))
                        else Inr (Settings\<lparr>PrePostRecvs := n\<rparr>, erase args i)))"
  by (simp add: set_prepostrecvs_def try_bind_def Let_def split: sum.splits)

lemma set_shouldVerifyBuffers_cases:
  "set_shouldVerifyBuffers ext Settings args =
     (case find_parameter ext (wide ''-verify'') args of
        Inl e \<Rightarrow> Inl e
      | Inr i \<Rightarrow>
          if i = length args then Inr (Settings, args)
          else case parameter_value ext (wide ''-verify'') (args ! i) of
                 Inl e \<Rightarrow> Inl e
               | Inr v \<Rightarrow>
                   if iordinal_equals ext (wide ''always'') v \<or> iordinal_equals ext (wide ''data'') v
                   then Inr (Settings\<lparr>ShouldVerifyBuffers := True, UseSharedBuffer := False\<rparr>,
                             erase args i)
                   else if iordinal_equals ext (wide ''never'') v
                           \<or> iordinal_equals ext (wide ''connection'') v
                   then Inr (Settings\<lparr>ShouldVerifyBuffers := False, UseSharedBuffer := True\<rparr>,
                             erase args i)
                   else Inl (invalid_argument (wide ''-verify'')))"
  by (simp add: set_shouldVerifyBuffers_def try_bind_def split: sum.splits)

lemma set_prepostrecvs_result:
  assumes "set_prepostrecvs ext Settings args = Inr (Settings', args')"
  shows "PrePostRecvs Settings' \<noteq> 0"
    and "Settings' = Settings\<lparr>PrePostRecvs := PrePostRecvs Settings'\<rparr>"
  using assms
  by (auto simp: set_prepostrecvs_cases split: sum.splits if_splits)

lemma set_shouldVerifyBuffers_result:
  assumes "set_shouldVerifyBuffers ext Settings args = Inr (Settings', args')"
  shows "Settings' = Settings
       \<or> Settings' = Settings\<lparr>ShouldVerifyBuffers := True, UseSharedBuffer := False\<rparr>
       \<or> Settings' = Settings\<lparr>ShouldVerifyBuffers := False, UseSharedBuffer := True\<rparr>"
  using assms
  by (auto simp: set_shouldVerifyBuffers_cases split: sum.splits if_splits)

text \<open>The three steps of the section, named.\<close>

lemma Startup_verify_steps:
  assumes "Startup_verify ext Settings args = Inr (Settings', args')"
  obtains S1 a1 n where
    "set_shouldVerifyBuffers ext (Settings\<lparr>ShouldVerifyBuffers := True, UseSharedBuffer := False\<rparr>) args
       = Inr (S1, a1)"
    "set_prepostrecvs ext
       (if UDP = Protocol S1 \<and> \<not> IsListening S1 then S1\<lparr>UseSharedBuffer := False\<rparr> else S1) a1
       = Inr (Settings', args')"
    "\<not> (TCP = Protocol Settings' \<and> ShouldVerifyBuffers Settings' \<and> PrePostRecvs Settings' > 1)"
  using assms
  by (auto simp: Startup_verify_def try_bind_def Let_def split: sum.splits prod.splits if_splits)


lemma Startup_verify_Inr:
  assumes "Startup_verify ext Settings args = Inr (Settings', args')"
  shows "Protocol Settings' = Protocol Settings"
    and "IsListening Settings' = IsListening Settings"
    and "PrePostRecvs Settings' \<noteq> 0"
    and "\<not> (TCP = Protocol Settings' \<and> ShouldVerifyBuffers Settings' \<and> PrePostRecvs Settings' > 1)"
    and "UDP = Protocol Settings \<and> \<not> IsListening Settings \<longrightarrow> \<not> UseSharedBuffer Settings'"
    and "UseSharedBuffer Settings' \<longrightarrow> \<not> ShouldVerifyBuffers Settings'"
proof -
  from assms obtain S1 a1 where
    v: "set_shouldVerifyBuffers ext (Settings\<lparr>ShouldVerifyBuffers := True, UseSharedBuffer := False\<rparr>) args
       = Inr (S1, a1)"
    and r: "set_prepostrecvs ext
       (if UDP = Protocol S1 \<and> \<not> IsListening S1 then S1\<lparr>UseSharedBuffer := False\<rparr> else S1) a1
       = Inr (Settings', args')"
    and g: "\<not> (TCP = Protocol Settings' \<and> ShouldVerifyBuffers Settings' \<and> PrePostRecvs Settings' > 1)"
    by (rule Startup_verify_steps)
  let ?X = "if UDP = Protocol S1 \<and> \<not> IsListening S1 then S1\<lparr>UseSharedBuffer := False\<rparr> else S1"
  note s1 = set_shouldVerifyBuffers_result [OF v]
  note s2 = set_prepostrecvs_result [OF r]
  have f: "ShouldVerifyBuffers Settings' = ShouldVerifyBuffers ?X"
    "UseSharedBuffer Settings' = UseSharedBuffer ?X"
    "Protocol Settings' = Protocol ?X"
    "ListenAddresses Settings' = ListenAddresses ?X"
    by (subst s2(2), simp)+
  show "\<not> (TCP = Protocol Settings' \<and> ShouldVerifyBuffers Settings' \<and> PrePostRecvs Settings' > 1)"
    by (fact g)
  show "PrePostRecvs Settings' \<noteq> 0" by (fact s2(1))
  show "Protocol Settings' = Protocol Settings"
    using s1 f by (auto split: if_splits)
  show "IsListening Settings' = IsListening Settings"
    using s1 f by (auto simp: IsListening_def split: if_splits)
  show "UDP = Protocol Settings \<and> \<not> IsListening Settings \<longrightarrow> \<not> UseSharedBuffer Settings'"
    using s1 f by (auto simp: IsListening_def split: if_splits)
  show "UseSharedBuffer Settings' \<longrightarrow> \<not> ShouldVerifyBuffers Settings'"
    using s1 f by (auto simp: IsListening_def split: if_splits)
qed

text \<open>
  Claim C7. Whatever the arguments and the settings before, the section of
  \<^verbatim>\<open>ctsConfig::Startup\<close> that settles verification and posted receives never returns
  settings that combine TCP, verification of the data and more than one posted
  receive: it throws \<^verbatim>\<open>invalid_argument\<close> for them, so with TCP more than one posted
  receive goes with connection-only verification. \<open>PrePostRecvs\<close> is 1 when the
  argument is absent, and an argument of 0 is rejected.
\<close>

theorem Startup_verify_serial_receives:
  "(Startup_verify ext Settings args = Inr (Settings', args') \<longrightarrow>
      Protocol Settings' = Protocol Settings
      \<and> PrePostRecvs Settings' \<noteq> 0
      \<and> (Protocol Settings' = TCP \<and> PrePostRecvs Settings' > 1 \<longrightarrow> \<not> ShouldVerifyBuffers Settings'))
   \<and> (set_shouldVerifyBuffers ext (Settings\<lparr>ShouldVerifyBuffers := True, UseSharedBuffer := False\<rparr>) args
        = Inr (S1, a1)
      \<and> set_prepostrecvs ext
          (if UDP = Protocol S1 \<and> \<not> IsListening S1 then S1\<lparr>UseSharedBuffer := False\<rparr> else S1) a1
        = Inr (S2, a2)
      \<and> Protocol S2 = TCP \<and> ShouldVerifyBuffers S2 \<and> PrePostRecvs S2 > 1 \<longrightarrow>
      Startup_verify ext Settings args
        = Inl (invalid_argument (wide ''-PrePostRecvs > 1 requires -Verify:connection when using TCP'')))
   \<and> (find_parameter ext (wide ''-PrePostRecvs'') args = Inr (length args) \<longrightarrow>
      set_prepostrecvs ext Settings args = Inr (Settings\<lparr>PrePostRecvs := 1\<rparr>, args))
   \<and> (find_parameter ext (wide ''-PrePostRecvs'') args = Inr i \<and> i < length args
      \<and> parameter_value ext (wide ''-PrePostRecvs'') (args ! i) = Inr v
      \<and> as_integral_ulong ext v = Inr 0 \<longrightarrow>
      set_prepostrecvs ext Settings args = Inl (invalid_argument (wide ''-PrePostRecvs'')))"
proof -
  have ok: "Startup_verify ext Settings args = Inr (Settings', args') \<longrightarrow>
      Protocol Settings' = Protocol Settings
      \<and> PrePostRecvs Settings' \<noteq> 0
      \<and> (Protocol Settings' = TCP \<and> PrePostRecvs Settings' > 1 \<longrightarrow> \<not> ShouldVerifyBuffers Settings')"
  proof
    assume a: "Startup_verify ext Settings args = Inr (Settings', args')"
    from Startup_verify_Inr(1,3,4) [OF a]
    show "Protocol Settings' = Protocol Settings
      \<and> PrePostRecvs Settings' \<noteq> 0
      \<and> (Protocol Settings' = TCP \<and> PrePostRecvs Settings' > 1 \<longrightarrow> \<not> ShouldVerifyBuffers Settings')"
      by auto
  qed
  have thrown: "set_shouldVerifyBuffers ext (Settings\<lparr>ShouldVerifyBuffers := True, UseSharedBuffer := False\<rparr>) args
        = Inr (S1, a1)
      \<and> set_prepostrecvs ext
          (if UDP = Protocol S1 \<and> \<not> IsListening S1 then S1\<lparr>UseSharedBuffer := False\<rparr> else S1) a1
        = Inr (S2, a2)
      \<and> Protocol S2 = TCP \<and> ShouldVerifyBuffers S2 \<and> PrePostRecvs S2 > 1 \<longrightarrow>
      Startup_verify ext Settings args
        = Inl (invalid_argument (wide ''-PrePostRecvs > 1 requires -Verify:connection when using TCP''))"
    by (simp add: Startup_verify_def try_bind_def Let_def)
  have absent: "find_parameter ext (wide ''-PrePostRecvs'') args = Inr (length args) \<longrightarrow>
      set_prepostrecvs ext Settings args = Inr (Settings\<lparr>PrePostRecvs := 1\<rparr>, args)"
    by (simp add: set_prepostrecvs_cases)
  have zero: "find_parameter ext (wide ''-PrePostRecvs'') args = Inr i \<and> i < length args
      \<and> parameter_value ext (wide ''-PrePostRecvs'') (args ! i) = Inr v
      \<and> as_integral_ulong ext v = Inr 0 \<longrightarrow>
      set_prepostrecvs ext Settings args = Inl (invalid_argument (wide ''-PrePostRecvs''))"
    by (simp add: set_prepostrecvs_cases)
  show ?thesis by (intro conjI) (fact ok, fact thrown, fact absent, fact zero)
qed

text \<open>
  Claim C8. A \<^verbatim>\<open>-verify\<close> value equal to \<open>always\<close> or \<open>data\<close> sets
  \<open>ShouldVerifyBuffers\<close> and clears \<open>UseSharedBuffer\<close>; otherwise a value equal to
  \<open>never\<close> or \<open>connection\<close> clears \<open>ShouldVerifyBuffers\<close> and sets \<open>UseSharedBuffer\<close>;
  any other value is rejected. Without the argument \<^verbatim>\<open>ctsConfig::Startup\<close> leaves its
  defaults, verification on and no shared buffer. For a UDP client it clears
  \<open>UseSharedBuffer\<close> in every case.
\<close>

theorem verify_mode_buffers:
  "(find_parameter ext (wide ''-verify'') args = Inr i \<and> i < length args
      \<and> parameter_value ext (wide ''-verify'') (args ! i) = Inr v \<longrightarrow>
      set_shouldVerifyBuffers ext Settings args =
        (if iordinal_equals ext (wide ''always'') v \<or> iordinal_equals ext (wide ''data'') v
         then Inr (Settings\<lparr>ShouldVerifyBuffers := True, UseSharedBuffer := False\<rparr>, erase args i)
         else if iordinal_equals ext (wide ''never'') v \<or> iordinal_equals ext (wide ''connection'') v
         then Inr (Settings\<lparr>ShouldVerifyBuffers := False, UseSharedBuffer := True\<rparr>, erase args i)
         else Inl (invalid_argument (wide ''-verify''))))
   \<and> (find_parameter ext (wide ''-verify'') args = Inr (length args) \<longrightarrow>
      set_shouldVerifyBuffers ext Settings args = Inr (Settings, args))
   \<and> (Startup_verify ext Settings args = Inr (Settings', args') \<longrightarrow>
      (find_parameter ext (wide ''-verify'') args = Inr (length args) \<longrightarrow>
         ShouldVerifyBuffers Settings' \<and> \<not> UseSharedBuffer Settings')
      \<and> (find_parameter ext (wide ''-verify'') args = Inr i \<and> i < length args
          \<and> parameter_value ext (wide ''-verify'') (args ! i) = Inr v
          \<and> (iordinal_equals ext (wide ''always'') v \<or> iordinal_equals ext (wide ''data'') v) \<longrightarrow>
         ShouldVerifyBuffers Settings' \<and> \<not> UseSharedBuffer Settings')
      \<and> (find_parameter ext (wide ''-verify'') args = Inr i \<and> i < length args
          \<and> parameter_value ext (wide ''-verify'') (args ! i) = Inr v
          \<and> \<not> (iordinal_equals ext (wide ''always'') v \<or> iordinal_equals ext (wide ''data'') v)
          \<and> (iordinal_equals ext (wide ''never'') v \<or> iordinal_equals ext (wide ''connection'') v) \<longrightarrow>
         \<not> ShouldVerifyBuffers Settings'
         \<and> (UseSharedBuffer Settings' \<longleftrightarrow> \<not> (UDP = Protocol Settings \<and> \<not> IsListening Settings)))
      \<and> (UDP = Protocol Settings \<and> \<not> IsListening Settings \<longrightarrow> \<not> UseSharedBuffer Settings'))"
proof -
  let ?D = "Settings\<lparr>ShouldVerifyBuffers := True, UseSharedBuffer := False\<rparr>"
  have given: "find_parameter ext (wide ''-verify'') args = Inr i \<and> i < length args
      \<and> parameter_value ext (wide ''-verify'') (args ! i) = Inr v \<longrightarrow>
      set_shouldVerifyBuffers ext Settings args =
        (if iordinal_equals ext (wide ''always'') v \<or> iordinal_equals ext (wide ''data'') v
         then Inr (Settings\<lparr>ShouldVerifyBuffers := True, UseSharedBuffer := False\<rparr>, erase args i)
         else if iordinal_equals ext (wide ''never'') v \<or> iordinal_equals ext (wide ''connection'') v
         then Inr (Settings\<lparr>ShouldVerifyBuffers := False, UseSharedBuffer := True\<rparr>, erase args i)
         else Inl (invalid_argument (wide ''-verify'')))"
    by (simp add: set_shouldVerifyBuffers_cases)
  have absent: "find_parameter ext (wide ''-verify'') args = Inr (length args) \<longrightarrow>
      set_shouldVerifyBuffers ext Settings args = Inr (Settings, args)"
    by (simp add: set_shouldVerifyBuffers_cases)
  have startup: "Startup_verify ext Settings args = Inr (Settings', args') \<longrightarrow>
      (find_parameter ext (wide ''-verify'') args = Inr (length args) \<longrightarrow>
         ShouldVerifyBuffers Settings' \<and> \<not> UseSharedBuffer Settings')
      \<and> (find_parameter ext (wide ''-verify'') args = Inr i \<and> i < length args
          \<and> parameter_value ext (wide ''-verify'') (args ! i) = Inr v
          \<and> (iordinal_equals ext (wide ''always'') v \<or> iordinal_equals ext (wide ''data'') v) \<longrightarrow>
         ShouldVerifyBuffers Settings' \<and> \<not> UseSharedBuffer Settings')
      \<and> (find_parameter ext (wide ''-verify'') args = Inr i \<and> i < length args
          \<and> parameter_value ext (wide ''-verify'') (args ! i) = Inr v
          \<and> \<not> (iordinal_equals ext (wide ''always'') v \<or> iordinal_equals ext (wide ''data'') v)
          \<and> (iordinal_equals ext (wide ''never'') v \<or> iordinal_equals ext (wide ''connection'') v) \<longrightarrow>
         \<not> ShouldVerifyBuffers Settings'
         \<and> (UseSharedBuffer Settings' \<longleftrightarrow> \<not> (UDP = Protocol Settings \<and> \<not> IsListening Settings)))
      \<and> (UDP = Protocol Settings \<and> \<not> IsListening Settings \<longrightarrow> \<not> UseSharedBuffer Settings')"
  proof
    assume a: "Startup_verify ext Settings args = Inr (Settings', args')"
    then obtain S1 a1 where
      sv: "set_shouldVerifyBuffers ext ?D args = Inr (S1, a1)"
      and r: "set_prepostrecvs ext
         (if UDP = Protocol S1 \<and> \<not> IsListening S1 then S1\<lparr>UseSharedBuffer := False\<rparr> else S1) a1
         = Inr (Settings', args')"
      by (rule Startup_verify_steps)
    let ?X = "if UDP = Protocol S1 \<and> \<not> IsListening S1 then S1\<lparr>UseSharedBuffer := False\<rparr> else S1"
    note s2 = set_prepostrecvs_result(2) [OF r]
    have f: "ShouldVerifyBuffers Settings' = ShouldVerifyBuffers ?X"
      "UseSharedBuffer Settings' = UseSharedBuffer ?X"
      by (subst s2, simp)+
    have none: "find_parameter ext (wide ''-verify'') args = Inr (length args) \<longrightarrow>
         ShouldVerifyBuffers Settings' \<and> \<not> UseSharedBuffer Settings'"
    proof
      assume "find_parameter ext (wide ''-verify'') args = Inr (length args)"
      with sv have "S1 = ?D" by (simp add: set_shouldVerifyBuffers_cases)
      then show "ShouldVerifyBuffers Settings' \<and> \<not> UseSharedBuffer Settings'"
        by (simp add: f)
    qed
    have data: "find_parameter ext (wide ''-verify'') args = Inr i \<and> i < length args
          \<and> parameter_value ext (wide ''-verify'') (args ! i) = Inr v
          \<and> (iordinal_equals ext (wide ''always'') v \<or> iordinal_equals ext (wide ''data'') v) \<longrightarrow>
         ShouldVerifyBuffers Settings' \<and> \<not> UseSharedBuffer Settings'"
    proof
      assume "find_parameter ext (wide ''-verify'') args = Inr i \<and> i < length args
          \<and> parameter_value ext (wide ''-verify'') (args ! i) = Inr v
          \<and> (iordinal_equals ext (wide ''always'') v \<or> iordinal_equals ext (wide ''data'') v)"
      with sv have "S1 = ?D" by (auto simp: set_shouldVerifyBuffers_cases)
      then show "ShouldVerifyBuffers Settings' \<and> \<not> UseSharedBuffer Settings'"
        by (simp add: f)
    qed
    have conn: "find_parameter ext (wide ''-verify'') args = Inr i \<and> i < length args
          \<and> parameter_value ext (wide ''-verify'') (args ! i) = Inr v
          \<and> \<not> (iordinal_equals ext (wide ''always'') v \<or> iordinal_equals ext (wide ''data'') v)
          \<and> (iordinal_equals ext (wide ''never'') v \<or> iordinal_equals ext (wide ''connection'') v) \<longrightarrow>
         \<not> ShouldVerifyBuffers Settings'
         \<and> (UseSharedBuffer Settings' \<longleftrightarrow> \<not> (UDP = Protocol Settings \<and> \<not> IsListening Settings))"
    proof
      assume "find_parameter ext (wide ''-verify'') args = Inr i \<and> i < length args
          \<and> parameter_value ext (wide ''-verify'') (args ! i) = Inr v
          \<and> \<not> (iordinal_equals ext (wide ''always'') v \<or> iordinal_equals ext (wide ''data'') v)
          \<and> (iordinal_equals ext (wide ''never'') v \<or> iordinal_equals ext (wide ''connection'') v)"
      with sv have "S1 = ?D\<lparr>ShouldVerifyBuffers := False, UseSharedBuffer := True\<rparr>"
        by (auto simp: set_shouldVerifyBuffers_cases)
      then show "\<not> ShouldVerifyBuffers Settings'
         \<and> (UseSharedBuffer Settings' \<longleftrightarrow> \<not> (UDP = Protocol Settings \<and> \<not> IsListening Settings))"
        by (simp add: f IsListening_def)
    qed
    from none data conn Startup_verify_Inr(5) [OF a]
    show "(find_parameter ext (wide ''-verify'') args = Inr (length args) \<longrightarrow>
         ShouldVerifyBuffers Settings' \<and> \<not> UseSharedBuffer Settings')
      \<and> (find_parameter ext (wide ''-verify'') args = Inr i \<and> i < length args
          \<and> parameter_value ext (wide ''-verify'') (args ! i) = Inr v
          \<and> (iordinal_equals ext (wide ''always'') v \<or> iordinal_equals ext (wide ''data'') v) \<longrightarrow>
         ShouldVerifyBuffers Settings' \<and> \<not> UseSharedBuffer Settings')
      \<and> (find_parameter ext (wide ''-verify'') args = Inr i \<and> i < length args
          \<and> parameter_value ext (wide ''-verify'') (args ! i) = Inr v
          \<and> \<not> (iordinal_equals ext (wide ''always'') v \<or> iordinal_equals ext (wide ''data'') v)
          \<and> (iordinal_equals ext (wide ''never'') v \<or> iordinal_equals ext (wide ''connection'') v) \<longrightarrow>
         \<not> ShouldVerifyBuffers Settings'
         \<and> (UseSharedBuffer Settings' \<longleftrightarrow> \<not> (UDP = Protocol Settings \<and> \<not> IsListening Settings)))
      \<and> (UDP = Protocol Settings \<and> \<not> IsListening Settings \<longrightarrow> \<not> UseSharedBuffer Settings')"
      by (intro conjI)
  qed
  show ?thesis by (intro conjI) (fact given, fact absent, fact startup)
qed

lemmas startup_example_defs =
  example_defs Startup_verify_def set_shouldVerifyBuffers_def set_prepostrecvs_def
  IsListening_def InitOncectsConfigImpl_def example_settings_def Let_def
  word_less_nat_alt word_le_nat_alt

theorem Startup_verify_serial_receives_witness:
  "Startup_verify example_externals (example_settings False 3 4 2) [wide ''-PrePostRecvs:2'' @ [0]]
     = Inl (invalid_argument (wide ''-PrePostRecvs > 1 requires -Verify:connection when using TCP''))
   \<and> Startup_verify example_externals (example_settings False 3 4 2)
       [wide ''-Verify:connection'' @ [0], wide ''-PrePostRecvs:2'' @ [0]]
     = Inr ((example_settings False 3 4 2)
             \<lparr>ShouldVerifyBuffers := False, UseSharedBuffer := True, PrePostRecvs := 2\<rparr>, [])
   \<and> set_prepostrecvs example_externals (example_settings False 3 4 2) [wide ''-Port:80'' @ [0]]
     = Inr ((example_settings False 3 4 2)\<lparr>PrePostRecvs := 1\<rparr>, [wide ''-Port:80'' @ [0]])
   \<and> set_prepostrecvs example_externals (example_settings False 3 4 2) [wide ''-PrePostRecvs:0'' @ [0]]
     = Inl (invalid_argument (wide ''-PrePostRecvs''))"
proof -
  let ?S = "example_settings False 3 4 2"
  let ?D = "?S\<lparr>ShouldVerifyBuffers := True, UseSharedBuffer := False\<rparr>"
  let ?two = "[wide ''-PrePostRecvs:2'' @ [0]]"
  have v: "set_shouldVerifyBuffers example_externals ?D ?two = Inr (?D, ?two)"
    by (simp add: startup_example_defs)
  have r: "set_prepostrecvs example_externals
      (if UDP = Protocol ?D \<and> \<not> IsListening ?D then ?D\<lparr>UseSharedBuffer := False\<rparr> else ?D) ?two
      = Inr (?D\<lparr>PrePostRecvs := 2\<rparr>, [])"
    by (simp add: startup_example_defs)
  have combo: "Protocol (?D\<lparr>PrePostRecvs := 2\<rparr>) = TCP \<and> ShouldVerifyBuffers (?D\<lparr>PrePostRecvs := 2\<rparr>)
      \<and> PrePostRecvs (?D\<lparr>PrePostRecvs := 2\<rparr>) > 1"
    by (simp add: example_settings_def word_less_nat_alt)
  have thrown: "Startup_verify example_externals ?S ?two
     = Inl (invalid_argument (wide ''-PrePostRecvs > 1 requires -Verify:connection when using TCP''))"
  proof (rule Startup_verify_serial_receives [THEN conjunct2, THEN conjunct1, THEN mp], intro conjI)
    show "set_shouldVerifyBuffers example_externals ?D ?two = Inr (?D, ?two)" by (fact v)
    show "set_prepostrecvs example_externals
      (if UDP = Protocol ?D \<and> \<not> IsListening ?D then ?D\<lparr>UseSharedBuffer := False\<rparr> else ?D) ?two
      = Inr (?D\<lparr>PrePostRecvs := 2\<rparr>, [])" by (fact r)
    show "Protocol (?D\<lparr>PrePostRecvs := 2\<rparr>) = TCP" using combo by blast
    show "ShouldVerifyBuffers (?D\<lparr>PrePostRecvs := 2\<rparr>)" using combo by blast
    show "PrePostRecvs (?D\<lparr>PrePostRecvs := 2\<rparr>) > 1" using combo by blast
  qed
  have accepted: "Startup_verify example_externals ?S
       [wide ''-Verify:connection'' @ [0], wide ''-PrePostRecvs:2'' @ [0]]
     = Inr (?S\<lparr>ShouldVerifyBuffers := False, UseSharedBuffer := True, PrePostRecvs := 2\<rparr>, [])"
    by (simp add: startup_example_defs)
  have f: "find_parameter example_externals (wide ''-PrePostRecvs'') [wide ''-Port:80'' @ [0]]
      = Inr (length [wide ''-Port:80'' @ [0]])"
    by (simp add: example_defs)
  have absent: "set_prepostrecvs example_externals ?S [wide ''-Port:80'' @ [0]]
     = Inr (?S\<lparr>PrePostRecvs := 1\<rparr>, [wide ''-Port:80'' @ [0]])"
    using f by (rule Startup_verify_serial_receives [THEN conjunct2, THEN conjunct2, THEN conjunct1, THEN mp])
  have zero: "set_prepostrecvs example_externals ?S [wide ''-PrePostRecvs:0'' @ [0]]
     = Inl (invalid_argument (wide ''-PrePostRecvs''))"
    by (simp add: startup_example_defs)
  show ?thesis by (intro conjI) (fact thrown, fact accepted, fact absent, fact zero)
qed

theorem verify_mode_buffers_witness:
  "set_shouldVerifyBuffers example_externals (example_settings False 3 4 2)
       [wide ''-Verify:Connection'' @ [0]]
     = Inr ((example_settings False 3 4 2)\<lparr>ShouldVerifyBuffers := False, UseSharedBuffer := True\<rparr>, [])
   \<and> set_shouldVerifyBuffers example_externals (example_settings False 3 4 2)
       [wide ''-verify:never'' @ [0]]
     = Inr ((example_settings False 3 4 2)\<lparr>ShouldVerifyBuffers := False, UseSharedBuffer := True\<rparr>, [])
   \<and> set_shouldVerifyBuffers example_externals
       ((example_settings False 3 4 2)\<lparr>ShouldVerifyBuffers := False, UseSharedBuffer := True\<rparr>)
       [wide ''-verify:data'' @ [0]]
     = Inr ((example_settings False 3 4 2)\<lparr>ShouldVerifyBuffers := True, UseSharedBuffer := False\<rparr>, [])
   \<and> set_shouldVerifyBuffers example_externals (example_settings False 3 4 2)
       [wide ''-verify:sometimes'' @ [0]]
     = Inl (invalid_argument (wide ''-verify''))
   \<and> Startup_verify example_externals ((example_settings False 3 4 2)\<lparr>Protocol := UDP\<rparr>)
       [wide ''-verify:connection'' @ [0]]
     = Inr ((example_settings False 3 4 2)
             \<lparr>Protocol := UDP, ShouldVerifyBuffers := False, UseSharedBuffer := False,
              PrePostRecvs := 1\<rparr>, [])
   \<and> Startup_verify example_externals
       ((example_settings False 3 4 2)\<lparr>ShouldVerifyBuffers := False, UseSharedBuffer := True\<rparr>) []
     = Inr ((example_settings False 3 4 2)
             \<lparr>ShouldVerifyBuffers := True, UseSharedBuffer := False, PrePostRecvs := 1\<rparr>, [])"
proof -
  let ?S = "example_settings False 3 4 2"
  let ?args = "[wide ''-Verify:Connection'' @ [0]]"
  have f: "find_parameter example_externals (wide ''-verify'') ?args = Inr 0"
    by (simp add: example_defs)
  have v: "parameter_value example_externals (wide ''-verify'') (?args ! 0) = Inr (wide ''Connection'')"
    by (simp add: example_defs)
  have "set_shouldVerifyBuffers example_externals ?S ?args =
        (if iordinal_equals example_externals (wide ''always'') (wide ''Connection'')
            \<or> iordinal_equals example_externals (wide ''data'') (wide ''Connection'')
         then Inr (?S\<lparr>ShouldVerifyBuffers := True, UseSharedBuffer := False\<rparr>, erase ?args 0)
         else if iordinal_equals example_externals (wide ''never'') (wide ''Connection'')
            \<or> iordinal_equals example_externals (wide ''connection'') (wide ''Connection'')
         then Inr (?S\<lparr>ShouldVerifyBuffers := False, UseSharedBuffer := True\<rparr>, erase ?args 0)
         else Inl (invalid_argument (wide ''-verify'')))"
    by (rule verify_mode_buffers [THEN conjunct1, THEN mp]) (intro conjI f v, simp)
  then have conn: "set_shouldVerifyBuffers example_externals ?S ?args
     = Inr (?S\<lparr>ShouldVerifyBuffers := False, UseSharedBuffer := True\<rparr>, [])"
    by (simp add: example_defs)
  have never: "set_shouldVerifyBuffers example_externals ?S [wide ''-verify:never'' @ [0]]
     = Inr (?S\<lparr>ShouldVerifyBuffers := False, UseSharedBuffer := True\<rparr>, [])"
    by (simp add: startup_example_defs)
  have data: "set_shouldVerifyBuffers example_externals
       (?S\<lparr>ShouldVerifyBuffers := False, UseSharedBuffer := True\<rparr>) [wide ''-verify:data'' @ [0]]
     = Inr (?S\<lparr>ShouldVerifyBuffers := True, UseSharedBuffer := False\<rparr>, [])"
    by (simp add: startup_example_defs)
  have other: "set_shouldVerifyBuffers example_externals ?S [wide ''-verify:sometimes'' @ [0]]
     = Inl (invalid_argument (wide ''-verify''))"
    by (simp add: startup_example_defs)
  have udp: "Startup_verify example_externals (?S\<lparr>Protocol := UDP\<rparr>) [wide ''-verify:connection'' @ [0]]
     = Inr (?S\<lparr>Protocol := UDP, ShouldVerifyBuffers := False, UseSharedBuffer := False,
              PrePostRecvs := 1\<rparr>, [])"
    by (simp add: startup_example_defs)
  have dflt: "Startup_verify example_externals
       (?S\<lparr>ShouldVerifyBuffers := False, UseSharedBuffer := True\<rparr>) []
     = Inr (?S\<lparr>ShouldVerifyBuffers := True, UseSharedBuffer := False, PrePostRecvs := 1\<rparr>, [])"
    by (simp add: startup_example_defs)
  show ?thesis by (intro conjI) (fact conn, fact never, fact data, fact other, fact udp, fact dflt)
qed

end
